theory Spec2Isabelle
  imports Main
begin

section \<open>Type model (typing.ts)\<close>

text \<open>
  The two string enums \<open>Kind\<close> and \<open>ExprKind\<close> of typing.ts; the \<open>type\<close> property of a
  Definition holds a member of either. \<open>NoType\<close> is the value \<open>undefined\<close> that reading
  \<open>type\<close> yields on an object without that property (toVarDeclaration builds such an
  object when the initializer resolves to null).
\<close>

datatype Kind =
    Kind_Int8 | Kind_Uint8 | Kind_Int16 | Kind_Uint16
  | Kind_Int32 | Kind_Uint32 | Kind_Int64 | Kind_Uint64
  | Kind_Int | Kind_Uint | Kind_Uintptr
  | Kind_Float32 | Kind_Float64
  | Kind_Complex64 | Kind_Complex128
  | Kind_Bool | Kind_String | Kind_Byte | Kind_Rune
  | Kind_Array | Kind_Slice | Kind_Map | Kind_Func | Kind_Struct
  | Kind_Pointer | Kind_Channel
  | Kind_Interface | Kind_Error | Kind_Any | Kind_Nil
  | Kind_Generic | Kind_Defined
  | ExprKind_Number | ExprKind_Float | ExprKind_Optional
  | NoType

text \<open>
  The properties that VariableDefinition, ArgumentDefinition and FieldDefinition add to a
  Definition and that the resolver reads: \<open>name\<close>, \<open>variadic\<close> and \<open>embedded\<close>, each optional.
  \<open>description\<close>, \<open>deprecated\<close>, \<open>required\<close>, \<open>package\<close> and \<open>receiver\<close> are carried along by
  the resolver and never read by it; they are left out.
\<close>

datatype Meta = Meta (name_of: "string option") (variadic_of: "bool option") (embedded_of: "bool option")

text \<open>
  The tagged union \<open>Definition\<close>: one constructor for each kind with a payload, and \<open>Prim\<close>
  for the kinds whose objects hold the \<open>type\<close> property only. A func holds its optional
  \<open>generics\<close> (name to constraint list, in key order), its \<open>args\<close> and its \<open>returns\<close>; a
  struct holds its \<open>fields\<close> in key order.

  The types of typing.ts give every object of a kind with a payload its payload. The
  resolver itself builds three objects outside these types, and \<open>Prim\<close> stands for them:
  \<open>Prim Kind_Slice\<close> is \<open>{type: slice, item: null}\<close> (an array literal or a slice expression
  over a null-typed item), \<open>Prim Kind_Map\<close> is \<open>{type: map, key: {type: string}, value: null}\<close>
  (a map literal of one pair with a null-typed value) and \<open>Prim Kind_Generic\<close> is a generic
  placeholder left without its name by patchGenerics.
\<close>

datatype Definition =
    Prim Kind Meta
  | Slice Definition Meta
  | Array nat Definition Meta
  | Map Definition Definition Meta
  | Func "(string \<times> Definition list) list option" "Definition list" "Definition list" Meta
  | Struct "(string \<times> Definition) list" Meta
  | Pointer Definition Meta
  | Channel Definition Meta
  | Optional Definition Meta
  | Generic string Meta
  | Defined string Meta

fun type_of :: "Definition \<Rightarrow> Kind" where
  "type_of (Prim k m) = k"
| "type_of (Slice i m) = Kind_Slice"
| "type_of (Array n i m) = Kind_Array"
| "type_of (Map k v m) = Kind_Map"
| "type_of (Func g as rs m) = Kind_Func"
| "type_of (Struct fs m) = Kind_Struct"
| "type_of (Pointer t m) = Kind_Pointer"
| "type_of (Channel i m) = Kind_Channel"
| "type_of (Optional i m) = ExprKind_Optional"
| "type_of (Generic g m) = Kind_Generic"
| "type_of (Defined n m) = Kind_Defined"

fun meta :: "Definition \<Rightarrow> Meta" where
  "meta (Prim k m) = m"
| "meta (Slice i m) = m"
| "meta (Array n i m) = m"
| "meta (Map k v m) = m"
| "meta (Func g as rs m) = m"
| "meta (Struct fs m) = m"
| "meta (Pointer t m) = m"
| "meta (Channel i m) = m"
| "meta (Optional i m) = m"
| "meta (Generic g m) = m"
| "meta (Defined n m) = m"

fun set_meta :: "Meta \<Rightarrow> Definition \<Rightarrow> Definition" where
  "set_meta m' (Prim k m) = Prim k m'"
| "set_meta m' (Slice i m) = Slice i m'"
| "set_meta m' (Array n i m) = Array n i m'"
| "set_meta m' (Map k v m) = Map k v m'"
| "set_meta m' (Func g as rs m) = Func g as rs m'"
| "set_meta m' (Struct fs m) = Struct fs m'"
| "set_meta m' (Pointer t m) = Pointer t m'"
| "set_meta m' (Channel i m) = Channel i m'"
| "set_meta m' (Optional i m) = Optional i m'"
| "set_meta m' (Generic g m) = Generic g m'"
| "set_meta m' (Defined n m) = Defined n m'"

text \<open>An object literal without name, variadic or embedded, and one with a name only.\<close>

definition no_meta :: Meta where
  "no_meta = Meta None None None"

definition named :: "string \<Rightarrow> Meta" where
  "named n = Meta (Some n) None None"

text \<open>\<open>item\<close> of a Definition, \<open>undefined\<close> (None) where the object has none.\<close>

fun item_of :: "Definition \<Rightarrow> Definition option" where
  "item_of (Slice i m) = Some i"
| "item_of (Array n i m) = Some i"
| "item_of (Channel i m) = Some i"
| "item_of (Optional i m) = Some i"
| "item_of d = None"

section \<open>Type equality and classification (resolver.ts)\<close>

fun isNumber :: "Definition \<Rightarrow> bool" where
  "isNumber t = (case type_of t of
      Kind_Int8 \<Rightarrow> True | Kind_Int16 \<Rightarrow> True | Kind_Int32 \<Rightarrow> True | Kind_Int64 \<Rightarrow> True
    | Kind_Uint8 \<Rightarrow> True | Kind_Uint16 \<Rightarrow> True | Kind_Uint32 \<Rightarrow> True | Kind_Uint64 \<Rightarrow> True
    | Kind_Float32 \<Rightarrow> True | Kind_Float64 \<Rightarrow> True | Kind_Int \<Rightarrow> True
    | ExprKind_Number \<Rightarrow> True | ExprKind_Float \<Rightarrow> True
    | _ \<Rightarrow> False)"

fun isSlice :: "Definition option \<Rightarrow> bool" where
  "isSlice None = False"
| "isSlice (Some t) = (type_of t = Kind_Slice \<or> type_of t = Kind_Array)"

text \<open>
  \<open>isEquals\<close>; a null argument is \<open>None\<close>. \<open>every_isEquals xs ys\<close> is
  \<open>xs.every((x, idx) => isEquals(x, ys[idx]))\<close>, where \<open>ys[idx]\<close> past the end of \<open>ys\<close> is
  undefined and isEquals answers false on it. For an object of kind map, chan or pointer
  without payload (\<open>Prim\<close>) the recursive call receives null or undefined and answers false.
\<close>

fun isEquals :: "Definition option \<Rightarrow> Definition option \<Rightarrow> bool"
and every_isEquals :: "Definition list \<Rightarrow> Definition list \<Rightarrow> bool" where
  "isEquals None b = False"
| "isEquals (Some a) None = False"
| "isEquals (Some a) (Some b) =
    (if type_of a \<noteq> type_of b then
       (isNumber a \<and> isNumber b) \<or>
       ((type_of a = ExprKind_Optional \<or> type_of a = Kind_Pointer) \<and> type_of b = Kind_Nil)
     else (case a of
         Defined n m \<Rightarrow> (case b of Defined n' m' \<Rightarrow> n = n' | _ \<Rightarrow> False)
       | Channel i m \<Rightarrow> (case b of Channel i' m' \<Rightarrow> isEquals (Some i) (Some i') | _ \<Rightarrow> False)
       | Map k v m \<Rightarrow> (case b of
             Map k' v' m' \<Rightarrow> isEquals (Some k) (Some k') \<and> isEquals (Some v) (Some v')
           | _ \<Rightarrow> False)
       | Pointer t m \<Rightarrow> (case b of Pointer t' m' \<Rightarrow> isEquals (Some t) (Some t') | _ \<Rightarrow> False)
       | Func g as rs m \<Rightarrow> (case b of
             Func g' as' rs' m' \<Rightarrow>
               length as = length as' \<and> length rs = length rs' \<and>
               every_isEquals as as' \<and> every_isEquals rs rs'
           | _ \<Rightarrow> False)
       | Prim k m \<Rightarrow> k \<noteq> Kind_Map \<and> k \<noteq> Kind_Channel \<and> k \<noteq> Kind_Pointer
       | _ \<Rightarrow> True))"
| "every_isEquals [] ys = True"
| "every_isEquals (x # xs) [] = False"
| "every_isEquals (x # xs) (y # ys) = (isEquals (Some x) (Some y) \<and> every_isEquals xs ys)"

fun isUnknownType :: "Definition option \<Rightarrow> bool" where
  "isUnknownType None = True"
| "isUnknownType (Some t) = (type_of t = Kind_Any \<or> type_of t = Kind_Interface)"

definition isPredicativeFunc :: "string \<Rightarrow> bool" where
  "isPredicativeFunc name = (name \<in> set [''all'', ''any'', ''one'', ''none'', ''filter'', ''find'',
      ''findIndex'', ''findLast'', ''findLastIndex'', ''groupBy'', ''count'',
      ''map'', ''reduce'', ''sortBy'', ''sum''])"

section \<open>Generic resolver (resolver.ts)\<close>

text \<open>
  A raised exception is a value: \<open>TypeError\<close> is what reading a property of null or
  undefined throws; \<open>OutOfFuel\<close> marks a computation cut off by the recursion bound of the
  functions below that may recurse for ever.
\<close>

datatype error = TypeError | OutOfFuel

text \<open>Payload properties of the second operand, \<open>undefined\<close> (None) where absent.\<close>

fun key_of :: "Definition \<Rightarrow> Definition option" where
  "key_of (Map k v m) = Some k"
| "key_of (Prim k m) = (if k = Kind_Map then Some (Prim Kind_String no_meta) else None)"
| "key_of d = None"

fun value_of :: "Definition \<Rightarrow> Definition option" where
  "value_of (Map k v m) = Some v"
| "value_of d = None"

fun to_of :: "Definition \<Rightarrow> Definition option" where
  "to_of (Pointer t m) = Some t"
| "to_of d = None"

fun args_of :: "Definition \<Rightarrow> Definition list" where
  "args_of (Func g as rs m) = as"
| "args_of d = []"

fun returns_of :: "Definition \<Rightarrow> Definition list" where
  "returns_of (Func g as rs m) = rs"
| "returns_of d = []"

text \<open>
  \<open>collectGenerics\<close>. A \<open>Record<string, Definition>\<close> is a finite map; the spread
  \<open>{...x, ...y}\<close> is \<open>x ++ y\<close> (the entries of \<open>y\<close> win). \<open>collectGenericsList ts as\<close> is the
  \<open>reduce\<close> over the expected list \<open>ts\<close> that merges \<open>collectGenerics(ts[idx], as[idx])\<close> from
  left to right; \<open>as[idx]\<close> past the end of \<open>as\<close> is undefined.
\<close>

fun collectGenerics :: "Definition option \<Rightarrow> Definition option \<Rightarrow> (string \<rightharpoonup> Definition)"
and collectGenericsList :: "Definition list \<Rightarrow> Definition list \<Rightarrow> (string \<rightharpoonup> Definition)" where
  "collectGenerics None a = Map.empty"
| "collectGenerics (Some t) None = Map.empty"
| "collectGenerics (Some t) (Some a) = (case t of
      Generic g m \<Rightarrow> [g \<mapsto> a]
    | Array n i m \<Rightarrow>
        (if type_of a = Kind_Array then collectGenerics (Some i) (item_of a) else Map.empty)
    | Slice i m \<Rightarrow>
        (if type_of a = Kind_Slice then collectGenerics (Some i) (item_of a) else Map.empty)
    | Channel i m \<Rightarrow>
        (if type_of a = Kind_Channel then collectGenerics (Some i) (item_of a) else Map.empty)
    | Map k v m \<Rightarrow>
        (if type_of a = Kind_Map
         then collectGenerics (Some k) (key_of a) ++ collectGenerics (Some v) (value_of a)
         else Map.empty)
    | Pointer p m \<Rightarrow>
        (if type_of a = Kind_Pointer then collectGenerics (Some p) (to_of a) else Map.empty)
    | Func g as rs m \<Rightarrow>
        (if type_of a = Kind_Func
         then collectGenericsList as (args_of a) ++ collectGenericsList rs (returns_of a)
         else Map.empty)
    | _ \<Rightarrow> Map.empty)"
| "collectGenericsList [] as = Map.empty"
| "collectGenericsList (t # ts) [] = collectGenerics (Some t) None ++ collectGenericsList ts []"
| "collectGenericsList (t # ts) (a # as) =
     collectGenerics (Some t) (Some a) ++ collectGenericsList ts as"

text \<open>
  The spread \<open>{...rest, ...b}\<close> on the properties of \<open>Meta\<close>: a property present in \<open>b\<close> wins.
\<close>

definition merge_meta :: "Meta \<Rightarrow> Meta \<Rightarrow> Meta" where
  "merge_meta rest b = Meta
     (case name_of b of Some n \<Rightarrow> Some n | None \<Rightarrow> name_of rest)
     (case variadic_of b of Some v \<Rightarrow> Some v | None \<Rightarrow> variadic_of rest)
     (case embedded_of b of Some e \<Rightarrow> Some e | None \<Rightarrow> embedded_of rest)"

text \<open>
  \<open>patchGenerics\<close>. The map case builds a fresh object of three properties; the func case
  drops \<open>generics\<close>; the generic case drops \<open>generic\<close> and spreads the binding over the rest,
  and where the substitution has no binding the object keeps its kind \<open>generic\<close> without a
  name (\<open>Prim Kind_Generic\<close>).
\<close>

fun patchGenerics :: "(string \<rightharpoonup> Definition) \<Rightarrow> Definition \<Rightarrow> Definition" where
  "patchGenerics m (Slice i mt) = Slice (patchGenerics m i) mt"
| "patchGenerics m (Array n i mt) = Array n (patchGenerics m i) mt"
| "patchGenerics m (Channel i mt) = Channel (patchGenerics m i) mt"
| "patchGenerics m (Map k v mt) = Map (patchGenerics m k) (patchGenerics m v) no_meta"
| "patchGenerics m (Pointer p mt) = Pointer (patchGenerics m p) mt"
| "patchGenerics m (Optional i mt) = Optional (patchGenerics m i) mt"
| "patchGenerics m (Func g as rs mt) =
     Func None (map (patchGenerics m) as) (map (patchGenerics m) rs) mt"
| "patchGenerics m (Generic g mt) = (case m g of
      None \<Rightarrow> Prim Kind_Generic mt
    | Some b \<Rightarrow> set_meta (merge_meta mt (meta b)) b)"
| "patchGenerics m t = t"

text \<open>
  One round of the argument loop of \<open>resolveFuncGenerics\<close>, up to the expected type:
  \<open>Inl TypeError\<close> when \<open>expected.variadic\<close> is read on undefined (the function declares no
  parameter, so \<open>defArgIdx\<close> is -1), \<open>Inr None\<close> when the loop breaks at this position, else
  the expected type, replaced by the single return type for a func-typed parameter of a
  predicate-taking builtin.
\<close>

definition argExpected :: "string \<Rightarrow> Definition list \<Rightarrow> nat \<Rightarrow> error + Definition option" where
  "argExpected name fargs argIdx =
    (let defArgIdx = (if argIdx < length fargs then int argIdx else int (length fargs) - 1) in
     if defArgIdx < 0 then Inl TypeError
     else
       let expected = fargs ! nat defArgIdx in
       if defArgIdx \<noteq> int argIdx \<and>
          \<not> (case variadic_of (meta expected) of Some v \<Rightarrow> v | None \<Rightarrow> False)
       then Inr None
       else if isPredicativeFunc name \<and> type_of expected = Kind_Func \<and>
               length (returns_of expected) = 1
       then Inr (Some (hd (returns_of expected)))
       else Inr (Some expected))"

text \<open>
  The argument loop, from position \<open>argIdx\<close> on, over the remaining actual arguments (an
  actual argument is null when its node resolved to null): the bindings collected at a
  position are spread first and the bindings held so far second.
\<close>

fun bindArgs :: "string \<Rightarrow> Definition list \<Rightarrow> nat \<Rightarrow> (string \<rightharpoonup> Definition) \<Rightarrow>
    Definition option list \<Rightarrow> error + (string \<rightharpoonup> Definition)" where
  "bindArgs name fargs argIdx generics [] = Inr generics"
| "bindArgs name fargs argIdx generics (actual # rest) =
    (case argExpected name fargs argIdx of
       Inl e \<Rightarrow> Inl e
     | Inr None \<Rightarrow> Inr generics
     | Inr (Some expected) \<Rightarrow>
         bindArgs name fargs (Suc argIdx) (collectGenerics (Some expected) actual ++ generics) rest)"

text \<open>
  The body of the \<open>forEach\<close> over the declared generic variables: an unbound variable
  becomes \<open>any\<close>; a binding that is neither of unknown-type constraint nor equal to one of
  the constraints becomes the first constraint (undefined, that is no binding, when the
  constraint list is empty).
\<close>

definition checkGeneric :: "string \<times> Definition list \<Rightarrow> (string \<rightharpoonup> Definition) \<Rightarrow>
    (string \<rightharpoonup> Definition)" where
  "checkGeneric gc generics =
    (let g = fst gc; cs = snd gc;
         generics1 = (if generics g = None then generics(g \<mapsto> Prim Kind_Any no_meta) else generics);
         equals = list_ex (\<lambda>t. isUnknownType (Some t) \<or> isEquals (generics1 g) (Some t)) cs
     in if \<not> equals then generics1(g := (case cs of [] \<Rightarrow> None | c # cs' \<Rightarrow> Some c))
        else generics1)"

text \<open>
  The substitution that \<open>resolveFuncGenerics\<close> hands to \<open>patchGenerics\<close>; the declared generics
  \<open>gs\<close> are visited in key order (the keys of a Record are distinct).
\<close>

definition resolveGenerics :: "(string \<times> Definition list) list \<Rightarrow> Definition list \<Rightarrow>
    Definition option list \<Rightarrow> string \<Rightarrow> error + (string \<rightharpoonup> Definition)" where
  "resolveGenerics gs fargs args name =
    (case bindArgs name fargs 0 Map.empty args of
       Inl e \<Rightarrow> Inl e
     | Inr generics \<Rightarrow> Inr (fold checkGeneric gs generics))"

fun resolveFuncGenerics :: "Definition \<Rightarrow> Definition option list \<Rightarrow> string \<Rightarrow> error + Definition" where
  "resolveFuncGenerics (Func (Some gs) fargs rs mt) args name =
    (case resolveGenerics gs fargs args name of
       Inl e \<Rightarrow> Inl e
     | Inr generics \<Rightarrow> Inr (patchGenerics generics (Func (Some gs) fargs rs mt)))"
| "resolveFuncGenerics f args name = Inr f"

text \<open>The entries \<open>map\<close> and \<open>filter\<close> of \<open>builtIn.variables\<close> (typing.ts).\<close>

definition builtIn_map :: Definition where
  "builtIn_map = Func (Some [(''T'', [Prim Kind_Any no_meta]), (''R'', [Prim Kind_Any no_meta])])
     [Slice (Generic ''T'' no_meta) (named ''array''),
      Func None [Prim Kind_Int (named ''#index''), Generic ''T'' (named ''#'')]
        [Generic ''R'' no_meta] (named ''predicate'')]
     [Slice (Generic ''R'' no_meta) no_meta]
     (named ''map'')"

definition builtIn_filter :: Definition where
  "builtIn_filter = Func (Some [(''T'', [Prim Kind_Any no_meta])])
     [Slice (Generic ''T'' no_meta) (named ''array''),
      Func None [Generic ''T'' (named ''#'')] [Prim Kind_Bool no_meta] (named ''predicate'')]
     [Slice (Generic ''T'' no_meta) no_meta]
     (named ''filter'')"

text \<open>\<open>r[k]\<close> for the Record that a computation returned.\<close>

definition bound_to :: "error + (string \<rightharpoonup> Definition) \<Rightarrow> string \<Rightarrow>
    error + Definition option" where
  "bound_to r k = (case r of Inl e \<Rightarrow> Inl e | Inr m \<Rightarrow> Inr (m k))"

text \<open>
  Two generic signatures \<open>f(a: T, b: T): T\<close> used as inputs below: \<open>twoT\<close> constrains \<open>T\<close> to
  number or string, \<open>anyT\<close> to any.
\<close>

definition twoT :: Definition where
  "twoT = Func (Some [(''T'', [Prim ExprKind_Number no_meta, Prim Kind_String no_meta])])
     [Generic ''T'' (named ''a''), Generic ''T'' (named ''b'')] [Generic ''T'' no_meta] (named ''f'')"

definition anyT :: Definition where
  "anyT = Func (Some [(''T'', [Prim Kind_Any no_meta])])
     [Generic ''T'' (named ''a''), Generic ''T'' (named ''b'')] [Generic ''T'' no_meta] (named ''f'')"

section \<open>Member resolver (resolver.ts)\<close>

text \<open>
  A \<open>TypeDefinition\<close>, the registry entry of a named type, is a Definition with an optional
  \<open>methods\<close> table; a Definition that is no registry entry has none (\<open>plain\<close>). The functions
  of this section take either, as their parameter type \<open>TypeDefinition | Definition\<close> says.
  A \<open>Scope\<close> holds the variables and the type registry; the keys of a Record are its own
  properties.
\<close>

datatype TypeDefinition =
  TypeDefinition (def_of: Definition) (methods_of: "(string \<times> Definition) list option")

definition plain :: "Definition \<Rightarrow> TypeDefinition" where
  "plain d = TypeDefinition d None"

record Scope =
  variables :: "string \<rightharpoonup> Definition"
  types :: "string \<rightharpoonup> TypeDefinition"

definition resolveRef :: "Scope \<Rightarrow> TypeDefinition \<Rightarrow> TypeDefinition" where
  "resolveRef s t = (case def_of t of
      Defined n m \<Rightarrow> (case types s n of Some td \<Rightarrow> td | None \<Rightarrow> t)
    | _ \<Rightarrow> t)"

text \<open>
  \<open>getBaseType\<close> is a while loop that may run for ever; not returning is the value None.
\<close>

partial_function (option) getBaseType :: "Scope \<Rightarrow> TypeDefinition \<Rightarrow> TypeDefinition option" where
  "getBaseType s t = (case def_of t of
      Defined n m \<Rightarrow> (case types s n of Some td \<Rightarrow> getBaseType s td | None \<Rightarrow> Some t)
    | _ \<Rightarrow> Some t)"

text \<open>\<open>field.embedded\<close> as a condition: the property is present and true.\<close>

definition embedded :: "Definition \<Rightarrow> bool" where
  "embedded field = (embedded_of (meta field) = Some True)"

text \<open>
  \<open>getMembers\<close> and \<open>getMember\<close> recurse through the registry without a guard. The first
  parameter bounds the depth of nested calls; \<open>Inl OutOfFuel\<close> says the bound was reached.
  \<open>getMembersFields\<close> and \<open>getMemberFields\<close> are the iterations over the fields of a struct, in
  key order.
\<close>

fun getMembers :: "nat \<Rightarrow> Scope \<Rightarrow> TypeDefinition \<Rightarrow> error + (string \<rightharpoonup> Definition)"
and getMembersFields :: "nat \<Rightarrow> Scope \<Rightarrow> (string \<times> Definition) list \<Rightarrow>
    (string \<rightharpoonup> Definition) \<Rightarrow> error + (string \<rightharpoonup> Definition)" where
  "getMembers 0 s src = Inl OutOfFuel"
| "getMembers (Suc n) s src =
    (let members = (case methods_of src of Some ms \<Rightarrow> map_of ms | None \<Rightarrow> Map.empty) in
     case def_of src of
       Struct flds m \<Rightarrow> getMembersFields n s flds (members ++ map_of flds)
     | Defined tn m \<Rightarrow> (case getMembers n s (resolveRef s src) of
           Inl e \<Rightarrow> Inl e
         | Inr ms \<Rightarrow> Inr (members ++ ms))
     | _ \<Rightarrow> Inr members)"
| "getMembersFields n s [] members = Inr members"
| "getMembersFields n s (ff # rest) members =
    (if type_of (snd ff) = Kind_Defined \<and> embedded (snd ff)
     then (case getMembers n s (resolveRef s (plain (snd ff))) of
           Inl e \<Rightarrow> Inl e
         | Inr ms \<Rightarrow> getMembersFields n s rest (members ++ ms))
     else getMembersFields n s rest members)"

fun getMember :: "nat \<Rightarrow> Scope \<Rightarrow> TypeDefinition \<Rightarrow> string \<Rightarrow> error + Definition option"
and getMemberFields :: "nat \<Rightarrow> Scope \<Rightarrow> (string \<times> Definition) list \<Rightarrow> string \<Rightarrow>
    error + Definition option" where
  "getMember 0 s src name = Inl OutOfFuel"
| "getMember (Suc n) s src name =
    (case (case def_of src of Struct flds m \<Rightarrow> map_of flds name | _ \<Rightarrow> None) of
       Some field \<Rightarrow> Inr (Some field)
     | None \<Rightarrow>
        (case (case methods_of src of Some ms \<Rightarrow> map_of ms name | None \<Rightarrow> None) of
           Some meth \<Rightarrow> Inr (Some meth)
         | None \<Rightarrow>
            (case def_of src of
               Struct flds m \<Rightarrow> getMemberFields n s flds name
             | Defined tn m \<Rightarrow> getMember n s (resolveRef s src) name
             | _ \<Rightarrow> Inr None)))"
| "getMemberFields n s [] name = Inr None"
| "getMemberFields n s (ff # rest) name =
    (if type_of (snd ff) = Kind_Defined \<and> embedded (snd ff)
     then (case getMember n s (resolveRef s (plain (snd ff))) name of
           Inl e \<Rightarrow> Inl e
         | Inr (Some member) \<Rightarrow> Inr (Some member)
         | Inr None \<Rightarrow> getMemberFields n s rest name)
     else getMemberFields n s rest name)"

text \<open>
  The recursion of the member resolver from a type is well founded: a struct whose embedded
  fields of defined type all lead to such types, a defined type whose registry entry is
  such a type, or any other type. A defined type that names no registry entry is resolved
  to itself by \<open>resolveRef\<close> and so is not in this set.
\<close>

inductive resolves :: "Scope \<Rightarrow> TypeDefinition \<Rightarrow> bool" for s :: Scope where
  resolves_other:
    "type_of (def_of t) \<noteq> Kind_Struct \<Longrightarrow> type_of (def_of t) \<noteq> Kind_Defined \<Longrightarrow> resolves s t"
| resolves_struct:
    "def_of t = Struct flds m \<Longrightarrow>
     (\<forall>ff \<in> set flds. type_of (snd ff) = Kind_Defined \<and> embedded (snd ff) \<longrightarrow>
        resolves s (resolveRef s (plain (snd ff)))) \<Longrightarrow>
     resolves s t"
| resolves_defined:
    "def_of t = Defined tn m \<Longrightarrow> types s tn = Some td \<Longrightarrow> resolves s td \<Longrightarrow> resolves s t"

text \<open>
  Inputs for the member resolver: struct \<open>A\<close> embeds \<open>B\<close> and declares \<open>X: string\<close>, the defined
  type \<open>B\<close> is a struct declaring \<open>X: int\<close>; and a registry whose entry \<open>A\<close> is the defined type
  \<open>A\<close> itself.
\<close>

definition structB :: TypeDefinition where
  "structB = TypeDefinition (Struct [(''X'', Prim Kind_Int (named ''X''))] (named ''B'')) None"

definition structA :: TypeDefinition where
  "structA = plain (Struct
     [(''B'', Defined ''B'' (Meta (Some ''B'') None (Some True))),
      (''X'', Prim Kind_String (named ''X''))] no_meta)"

definition scopeAB :: Scope where
  "scopeAB = \<lparr> variables = Map.empty, types = [''B'' \<mapsto> structB] \<rparr>"

definition selfA :: TypeDefinition where
  "selfA = TypeDefinition (Defined ''A'' (named ''A'')) None"

definition scopeCyclic :: Scope where
  "scopeCyclic = \<lparr> variables = Map.empty, types = [''A'' \<mapsto> selfA] \<rparr>"

section \<open>Syntax tree and editor state\<close>

text \<open>
  The parser and the editor state are collaborators of the resolver; what the resolver reads
  of them is modelled here. A tree node has the name of its node type, the groups of that
  type (\<open>NodeProp.group\<close>), the error flag of the type, its span and its children (the
  nodes with a name; anonymous nodes are not part of the tree that a SyntaxNode walks).
  A \<open>SyntaxNode\<close> is a position in the tree of the state: the path from the root (child
  indices) with the subtree found there.
\<close>

datatype Tree =
  Tree (tname: string) (tgroups: "string list") (isError: bool) (tfrom: nat) (tto: nat)
    (kids: "Tree list")

type_synonym SyntaxNode = "nat list \<times> Tree"

text \<open>
  The state: the document text, the syntax tree, \<open>selection.main.head\<close>, and the Scope that
  \<open>getScope\<close> returns for the nodes of the tree. \<open>getScope\<close> is defined in props.ts, which is
  not among the sources; it is taken as this component of the state.
\<close>

record EditorState =
  st_doc :: string
  st_tree :: Tree
  st_head :: nat
  st_scope :: Scope

definition sliceString :: "EditorState \<Rightarrow> nat \<Rightarrow> nat \<Rightarrow> string" where
  "sliceString st from to = take (to - from) (drop from (st_doc st))"

definition text_of :: "EditorState \<Rightarrow> SyntaxNode \<Rightarrow> string" where
  "text_of st nd = sliceString st (tfrom (snd nd)) (tto (snd nd))"

text \<open>\<open>node.type.is(ty)\<close>: the name of the node type or one of its groups.\<close>

definition type_is :: "string \<Rightarrow> SyntaxNode \<Rightarrow> bool" where
  "type_is ty nd = (tname (snd nd) = ty \<or> ty \<in> set (tgroups (snd nd)))"

definition children :: "SyntaxNode \<Rightarrow> SyntaxNode list" where
  "children nd = map (\<lambda>ik. (fst nd @ [fst ik], snd ik)) (enumerate 0 (kids (snd nd)))"

definition getChildren :: "string \<Rightarrow> SyntaxNode \<Rightarrow> SyntaxNode list" where
  "getChildren ty nd = filter (type_is ty) (children nd)"

definition getChild :: "string \<Rightarrow> SyntaxNode \<Rightarrow> SyntaxNode option" where
  "getChild ty nd = (case getChildren ty nd of [] \<Rightarrow> None | c # cs \<Rightarrow> Some c)"

fun subtree :: "Tree \<Rightarrow> nat list \<Rightarrow> Tree option" where
  "subtree t [] = Some t"
| "subtree t (i # p) = (if i < length (kids t) then subtree (kids t ! i) p else None)"

definition nodeAt :: "Tree \<Rightarrow> nat list \<Rightarrow> SyntaxNode option" where
  "nodeAt T p = map_option (\<lambda>t. (p, t)) (subtree T p)"

definition parent :: "Tree \<Rightarrow> SyntaxNode \<Rightarrow> SyntaxNode option" where
  "parent T nd = (if fst nd = [] then None else nodeAt T (butlast (fst nd)))"

definition prevSibling :: "Tree \<Rightarrow> SyntaxNode \<Rightarrow> SyntaxNode option" where
  "prevSibling T nd =
    (if fst nd = [] \<or> last (fst nd) = 0 then None
     else nodeAt T (butlast (fst nd) @ [last (fst nd) - 1]))"

text \<open>The node and its ancestors, innermost first (the loop \<open>cur = cur.parent\<close>).\<close>

definition upward :: "Tree \<Rightarrow> SyntaxNode \<Rightarrow> SyntaxNode list" where
  "upward T nd = nd # List.map_filter (nodeAt T)
     (map (\<lambda>k. take k (fst nd)) (rev [0..<length (fst nd)]))"

text \<open>
  \<open>syntaxTree(state).iterate({enter, to})\<close> with an \<open>enter\<close> that returns true: the nodes that
  start at or before \<open>to\<close>, in document order (a node before its children), where the
  children of a node that starts after \<open>to\<close> are not visited.
\<close>

fun iterate :: "nat \<Rightarrow> nat list \<Rightarrow> Tree \<Rightarrow> SyntaxNode list"
and iterateKids :: "nat \<Rightarrow> nat list \<Rightarrow> nat \<Rightarrow> Tree list \<Rightarrow> SyntaxNode list" where
  "iterate to p (Tree nm gs err f t ks) =
    (if f \<le> to then (p, Tree nm gs err f t ks) # iterateKids to p 0 ks else [])"
| "iterateKids to p i [] = []"
| "iterateKids to p i (k # ks) = iterate to (p @ [i]) k @ iterateKids to p (Suc i) ks"

section \<open>Built-in signatures of the predicate-taking functions (typing.ts)\<close>

definition arrayT :: Definition where
  "arrayT = Slice (Generic ''T'' no_meta) (named ''array'')"

definition anyDef :: Definition where
  "anyDef = Prim Kind_Any no_meta"

text \<open>The signature shared by \<open>all\<close>, \<open>any\<close>, \<open>one\<close>, \<open>none\<close>, \<open>find\<close>, ..., \<open>count\<close>.\<close>

definition elementPredicate :: "string \<Rightarrow> Definition \<Rightarrow> Definition" where
  "elementPredicate name ret = Func (Some [(''T'', [anyDef])])
     [arrayT,
      Func None [Generic ''T'' (named ''#'')] [Prim Kind_Bool no_meta] (named ''predicate'')]
     [ret] (named name)"

definition builtIn_groupBy :: Definition where
  "builtIn_groupBy = Func (Some [(''T'', [anyDef]), (''R'', [anyDef])])
     [arrayT,
      Func None [Generic ''T'' (named ''#'')] [Generic ''R'' no_meta] (named ''predicate'')]
     [Map (Generic ''R'' no_meta) (Slice (Generic ''T'' no_meta) no_meta) no_meta]
     (named ''groupBy'')"

definition builtIn_reduce :: Definition where
  "builtIn_reduce = Func (Some [(''T'', [anyDef]), (''T2'', [anyDef]), (''R'', [anyDef])])
     [arrayT,
      Func None [Prim Kind_Int (named ''#index''), Generic ''T'' (named ''#''),
                 Generic ''T2'' (named ''#acc'')]
        [Generic ''R'' no_meta] (named ''predicate''),
      Generic ''T2'' (named ''initialValue'')]
     [Generic ''R'' no_meta]
     (named ''reduce'')"

definition builtIn_sum :: Definition where
  "builtIn_sum = Func (Some [(''T'', [anyDef]), (''R'', [Prim ExprKind_Number no_meta])])
     [arrayT,
      Func None [Prim Kind_Int (named ''#index''), Generic ''T'' (named ''#'')]
        [Generic ''R'' no_meta] (named ''predicate'')]
     [Prim ExprKind_Float no_meta]
     (named ''sum'')"

definition builtIn_sortBy :: Definition where
  "builtIn_sortBy = Func (Some [(''T'', [anyDef])])
     [arrayT,
      Func None [Generic ''T'' (named ''#'')] [anyDef] (named ''predicate''),
      Prim Kind_String (named ''order'')]
     [Slice (Generic ''T'' no_meta) no_meta]
     (named ''sortBy'')"

text \<open>
  \<open>builtIn.variables[name]\<close> for the names that pass \<open>isPredicativeFunc\<close>, the only names
  that \<open>getPredicateScope\<close> looks up.
\<close>

definition builtIn_variables :: "string \<rightharpoonup> Definition" where
  "builtIn_variables = map_of [
     (''all'', elementPredicate ''all'' (Prim Kind_Bool no_meta)),
     (''any'', elementPredicate ''any'' (Prim Kind_Bool no_meta)),
     (''one'', elementPredicate ''one'' (Prim Kind_Bool no_meta)),
     (''none'', elementPredicate ''none'' (Prim Kind_Bool no_meta)),
     (''map'', builtIn_map),
     (''filter'', builtIn_filter),
     (''find'', elementPredicate ''find'' (Optional (Generic ''T'' no_meta) no_meta)),
     (''findIndex'', elementPredicate ''findIndex'' (Optional (Prim Kind_Int no_meta) no_meta)),
     (''findLast'', elementPredicate ''findLast'' (Optional (Generic ''T'' no_meta) no_meta)),
     (''findLastIndex'',
        elementPredicate ''findLastIndex'' (Optional (Prim Kind_Int no_meta) no_meta)),
     (''groupBy'', builtIn_groupBy),
     (''count'', elementPredicate ''count'' (Prim Kind_Int no_meta)),
     (''reduce'', builtIn_reduce),
     (''sum'', builtIn_sum),
     (''sortBy'', builtIn_sortBy)]"

section \<open>Expression type resolver and scope resolver (resolver.ts)\<close>

text \<open>Sequencing of computations that may raise, and the iterations built on it.\<close>

definition bindE :: "error + 'a \<Rightarrow> ('a \<Rightarrow> error + 'b) \<Rightarrow> error + 'b" where
  "bindE r f = (case r of Inl e \<Rightarrow> Inl e | Inr v \<Rightarrow> f v)"

fun mapE :: "('a \<Rightarrow> error + 'b) \<Rightarrow> 'a list \<Rightarrow> error + 'b list" where
  "mapE f [] = Inr []"
| "mapE f (x # xs) = bindE (f x) (\<lambda>y. bindE (mapE f xs) (\<lambda>ys. Inr (y # ys)))"

fun foldE :: "('a \<Rightarrow> 'b \<Rightarrow> error + 'b) \<Rightarrow> 'a list \<Rightarrow> 'b \<Rightarrow> error + 'b" where
  "foldE f [] acc = Inr acc"
| "foldE f (x # xs) acc = bindE (f x acc) (foldE f xs)"

fun firstE :: "('a \<Rightarrow> error + 'b option) \<Rightarrow> 'a list \<Rightarrow> error + 'b option" where
  "firstE f [] = Inr None"
| "firstE f (x # xs) =
    bindE (f x) (\<lambda>r. case r of Some y \<Rightarrow> Inr (Some y) | None \<Rightarrow> firstE f xs)"

text \<open>\<open>xs[i]\<close>, undefined past the end.\<close>

definition nth_opt :: "'a list \<Rightarrow> nat \<Rightarrow> 'a option" where
  "nth_opt xs i = (if i < length xs then Some (xs ! i) else None)"

text \<open>The spread \<open>{...d, name}\<close>.\<close>

definition withName :: "string \<Rightarrow> Definition \<Rightarrow> Definition" where
  "withName n d = set_meta (Meta (Some n) (variadic_of (meta d)) (embedded_of (meta d))) d"

text \<open>\<open>arg.name\<close> as a property key; an absent name is the key \<open>undefined\<close>.\<close>

definition key_name :: "Definition \<Rightarrow> string" where
  "key_name d = (case name_of (meta d) of Some n \<Rightarrow> n | None \<Rightarrow> ''undefined'')"

text \<open>
  The array and map literal cases after their children are resolved; \<open>sliceOf\<close> and \<open>mapOf\<close>
  build \<open>{type: slice, item}\<close> and \<open>{type: map, key: {type: string}, value}\<close> for an item or
  value that may be null.
\<close>

definition sliceOf :: "Definition option \<Rightarrow> Definition" where
  "sliceOf item = (case item of Some i \<Rightarrow> Slice i no_meta | None \<Rightarrow> Prim Kind_Slice no_meta)"

definition mapOf :: "Definition option \<Rightarrow> Definition" where
  "mapOf v = (case v of
      Some d \<Rightarrow> Map (Prim Kind_String no_meta) d no_meta
    | None \<Rightarrow> Prim Kind_Map no_meta)"

definition arrayLiteral :: "Definition option list \<Rightarrow> Definition" where
  "arrayLiteral cs = (case cs of
      [] \<Rightarrow> Slice anyDef no_meta
    | c0 # rest \<Rightarrow> if list_all (\<lambda>c. isEquals c0 c) rest then sliceOf c0 else Slice anyDef no_meta)"

definition mapLiteral :: "Definition option list \<Rightarrow> Definition" where
  "mapLiteral vs = (case vs of
      [] \<Rightarrow> Map (Prim Kind_String no_meta) anyDef no_meta
    | v0 # rest \<Rightarrow>
        if list_all (\<lambda>v. isEquals v0 v) rest then mapOf v0
        else Map (Prim Kind_String no_meta) anyDef no_meta)"

text \<open>
  The selector cases after the source is resolved: \<open>getMember\<close> reads \<open>src.type\<close> first, which
  throws on a null source.
\<close>

definition memberOf :: "nat \<Rightarrow> EditorState \<Rightarrow> Definition option \<Rightarrow> string \<Rightarrow>
    error + Definition option" where
  "memberOf n st source name = (case source of
      None \<Rightarrow> Inl TypeError
    | Some src \<Rightarrow> getMember n (st_scope st) (plain src) name)"

definition indexType :: "Definition option \<Rightarrow> error + Definition option" where
  "indexType source = (case source of
      None \<Rightarrow> Inl TypeError
    | Some s \<Rightarrow>
        if type_of s = Kind_Array \<or> type_of s = Kind_Slice then Inr (item_of s)
        else if type_of s = Kind_Map then Inr (value_of s)
        else Inr (Some anyDef))"

definition sliceType :: "Definition option \<Rightarrow> error + Definition option" where
  "sliceType source = (case source of
      None \<Rightarrow> Inl TypeError
    | Some s \<Rightarrow>
        if type_of s = Kind_Array \<or> type_of s = Kind_Slice then Inr (Some (sliceOf (item_of s)))
        else Inr (Some anyDef))"

text \<open>
  The binary case for an operator that is neither a comparison nor a logic operator, after
  both operands are resolved (\<open>r\<close> is the first expression child, \<open>l\<close> the second).
\<close>

definition binaryType :: "Definition option \<Rightarrow> Definition option \<Rightarrow> error + Definition option" where
  "binaryType r l = (case r of
      None \<Rightarrow> Inl TypeError
    | Some rd \<Rightarrow>
        if isNumber rd then
          (case l of
             None \<Rightarrow> Inl TypeError
           | Some ld \<Rightarrow>
               if isNumber ld then Inr (Some (Prim ExprKind_Float no_meta))
               else if isEquals r l then Inr r else Inr (Some anyDef))
        else if isEquals r l then Inr r else Inr (Some anyDef))"

text \<open>
  The conditional case after both branches are resolved to \<open>t\<close> and \<open>f\<close>; \<open>condition\<close>, \<open>truth\<close>
  and \<open>falsehood\<close> are the first three expression children (undefined where absent).
\<close>

definition conditionalType :: "EditorState \<Rightarrow> SyntaxNode option \<Rightarrow> SyntaxNode option \<Rightarrow>
    SyntaxNode option \<Rightarrow> Definition option \<Rightarrow> Definition option \<Rightarrow> error + Definition option" where
  "conditionalType st condition truth falsehood t f =
    (if isEquals t f then Inr t
     else case t of
       None \<Rightarrow> Inl TypeError
     | Some td \<Rightarrow>
        if type_of td \<noteq> ExprKind_Optional then Inr (Some anyDef)
        else case condition of
          None \<Rightarrow> Inl TypeError
        | Some cond \<Rightarrow>
           if \<not> type_is ''BinaryExpr'' cond then Inr (Some anyDef)
           else case getChild ''Op'' cond of
             None \<Rightarrow> Inl TypeError
           | Some op \<Rightarrow>
              if tname (snd op) \<noteq> ''CompareOp'' then Inr (Some anyDef)
              else if text_of st op \<noteq> ''=='' \<and> text_of st op \<noteq> ''!='' then Inr (Some anyDef)
              else case nth_opt (getChildren ''Expr'' cond) 0 of
                None \<Rightarrow> Inl TypeError
              | Some right \<Rightarrow>
                 (let left = nth_opt (getChildren ''Expr'' cond) 1 in
                  if \<not> type_is ''Nil'' right \<and> left = None then Inl TypeError
                  else if \<not> type_is ''Nil'' right \<and>
                          \<not> (case left of None \<Rightarrow> False | Some lf \<Rightarrow> type_is ''Nil'' lf)
                  then Inr (Some anyDef)
                  else case (if type_is ''Nil'' right then left else Some right) of
                    None \<Rightarrow> Inl TypeError
                  | Some src \<Rightarrow>
                     (case (if text_of st op = ''!='' then truth else falsehood) of
                        None \<Rightarrow> Inl TypeError
                      | Some r \<Rightarrow>
                         if text_of st src = text_of st r \<and> isEquals (item_of td) f
                         then Inr (item_of td)
                         else Inr (Some anyDef))))"

text \<open>
  The call is the right-hand side of a pipe: \<open>Some source\<close> with the pipe source node (the
  first expression child of the parent, null where there is none), else \<open>None\<close>. The call
  case tests the parent with \<open>type.is\<close>, getPredicateScope with the node name.
\<close>

definition pipeSource :: "Tree \<Rightarrow> bool \<Rightarrow> SyntaxNode \<Rightarrow> SyntaxNode option option" where
  "pipeSource T byName call = (case parent T call of
      None \<Rightarrow> None
    | Some p \<Rightarrow>
        if (if byName then tname (snd p) = ''PipeExpr'' else type_is ''PipeExpr'' p) \<and>
           prevSibling T call \<noteq> None
        then Some (getChild ''Expr'' p) else None)"

text \<open>
  The scope that getPredicateScope builds from the parameters of the resolved predicate,
  with the rebinding of \<open>#acc\<close> to the type of \<open>#\<close> when \<open>#acc\<close> is left of type any.
\<close>

definition predicateScope :: "Definition list \<Rightarrow> (string \<rightharpoonup> Definition)" where
  "predicateScope pargs =
    (let scope = foldl (\<lambda>acc arg. acc ++ [key_name arg \<mapsto> arg]) Map.empty pargs in
     case scope ''#acc'' of
       None \<Rightarrow> scope
     | Some a \<Rightarrow> if type_of a = Kind_Any then scope(''#acc'' := scope ''#'') else scope)"

text \<open>
  The resolver proper. Its five functions call each other through the tree without a
  structural bound (a variable reads the declarations before it, a pointer reads the sibling
  arguments of the enclosing call). Each body is written once, with the functions it calls
  as parameters (\<open>getDef\<close> for getDefinition, and so on); the recursive functions below pass
  themselves with a depth bound one smaller, and \<open>Inl OutOfFuel\<close> says the bound was reached.
\<close>

text \<open>\<open>definition\<close>, the dispatch on the name of the node.\<close>

definition definition' :: "nat \<Rightarrow> (SyntaxNode option \<Rightarrow> error + Definition option) \<Rightarrow>
    (SyntaxNode \<Rightarrow> nat option \<Rightarrow> error + (string \<rightharpoonup> Definition)) \<Rightarrow>
    (SyntaxNode \<Rightarrow> error + (string \<rightharpoonup> Definition)) \<Rightarrow>
    EditorState \<Rightarrow> SyntaxNode \<Rightarrow> error + Definition option" where
  "definition' n getDef getLocals getPtrs st nd =
    (let nm = tname (snd nd) in
     if nm = [] then Inr (Some anyDef)
     else if nm = ''Integer'' then Inr (Some (Prim Kind_Int no_meta))
     else if nm = ''Float'' then Inr (Some (Prim ExprKind_Float no_meta))
     else if nm = ''String'' then Inr (Some (Prim Kind_String no_meta))
     else if nm = ''Bool'' then Inr (Some (Prim Kind_Bool no_meta))
     else if nm = ''Nil'' then Inr (Some (Prim Kind_Nil no_meta))
     else if nm = ''RangeExpr'' then Inr (Some (Slice (Prim Kind_Int no_meta) no_meta))
     else if nm = ''VarName'' then
       (case variables (st_scope st) (text_of st nd) of
          Some v \<Rightarrow> Inr (Some (withName (text_of st nd) v))
        | None \<Rightarrow> bindE (getLocals nd None) (\<lambda>locals.
            case locals (text_of st nd) of
              Some v \<Rightarrow> Inr (Some (withName (text_of st nd) v))
            | None \<Rightarrow> Inr (Some anyDef)))
     else if nm = ''SelectorExpr'' \<or> nm = ''OptionalSelectorExpr'' then
       bindE (getDef (getChild ''Expr'' nd)) (\<lambda>source.
         case getChild ''FieldName'' nd of
           None \<Rightarrow> Inr (Some anyDef)
         | Some field \<Rightarrow> memberOf n st source (text_of st field))
     else if nm = ''PointerSelectorExpr'' then
       bindE (getPtrs nd) (\<lambda>pointers.
         case pointers ''#'' of
           None \<Rightarrow> Inr (Some anyDef)
         | Some source \<Rightarrow>
            (case getChild ''FieldName'' nd of
               None \<Rightarrow> Inr (Some anyDef)
             | Some field \<Rightarrow> memberOf n st (Some source) (text_of st field)))
     else if nm = ''Pointer'' then
       bindE (getPtrs nd) (\<lambda>pointers.
         case pointers (text_of st nd) of
           Some d \<Rightarrow> Inr (Some d)
         | None \<Rightarrow> Inr (Some anyDef))
     else if nm = ''ParenthesizedExpr'' \<or> nm = ''UnaryExpr'' \<or> nm = ''Block'' \<or>
             nm = ''Predicate'' \<or> nm = ''PipeExpr'' then
       getDef (case getChildren ''Expr'' nd of [] \<Rightarrow> None | c # cs \<Rightarrow> Some (last (c # cs)))
     else if nm = ''Array'' then
       bindE (mapE (\<lambda>c. getDef (Some c)) (getChildren ''Expr'' nd)) (\<lambda>cs.
         Inr (Some (arrayLiteral cs)))
     else if nm = ''Map'' then
       bindE (mapE (\<lambda>pair. getDef (nth_opt (getChildren ''Expr'' pair) 1))
                (getChildren ''Pair'' nd)) (\<lambda>vs.
         Inr (Some (mapLiteral vs)))
     else if nm = ''IndexExpr'' then bindE (getDef (getChild ''Expr'' nd)) indexType
     else if nm = ''SliceExpr'' then bindE (getDef (getChild ''Expr'' nd)) sliceType
     else if nm = ''CallExpr'' then
       bindE (getDef (getChild ''Expr'' nd)) (\<lambda>source.
         case source of
           None \<Rightarrow> Inl TypeError
         | Some src \<Rightarrow>
            if type_of src \<noteq> Kind_Func then Inr (Some anyDef)
            else (case getChild ''Arguments'' nd of
               None \<Rightarrow> Inl TypeError
             | Some argsNode \<Rightarrow>
                bindE (mapE getDef
                    ((case pipeSource (st_tree st) False nd of None \<Rightarrow> [] | Some a \<Rightarrow> [a]) @
                     map Some (getChildren ''Expr'' argsNode))) (\<lambda>argsDef.
                  bindE (resolveFuncGenerics src argsDef
                      (case getChild ''Expr'' nd of Some c \<Rightarrow> text_of st c | None \<Rightarrow> [])) (\<lambda>t.
                    case returns_of t of
                      r # rs \<Rightarrow> Inr (Some r)
                    | [] \<Rightarrow> Inr (Some anyDef)))))
     else if nm = ''BinaryExpr'' then
       (case getChild ''Op'' nd of
          None \<Rightarrow> Inl TypeError
        | Some op \<Rightarrow>
           if tname (snd op) = ''CompareOp'' \<or> tname (snd op) = ''LogicOp''
           then Inr (Some (Prim Kind_Bool no_meta))
           else bindE (getDef (nth_opt (getChildren ''Expr'' nd) 0)) (\<lambda>r.
                bindE (getDef (nth_opt (getChildren ''Expr'' nd) 1)) (\<lambda>l.
                  binaryType r l)))
     else if nm = ''ConditionalExpr'' then
       bindE (getDef (nth_opt (getChildren ''Expr'' nd) 1)) (\<lambda>t.
       bindE (getDef (nth_opt (getChildren ''Expr'' nd) 2)) (\<lambda>f.
         conditionalType st (nth_opt (getChildren ''Expr'' nd) 0)
           (nth_opt (getChildren ''Expr'' nd) 1) (nth_opt (getChildren ''Expr'' nd) 2) t f))
     else Inr (Some anyDef))"

text \<open>
  \<open>toVarDeclaration\<close>. The description that it assembles from the comments before the
  declaration is not modelled; the read of \<open>varDecl.parent.prevSibling\<close> that starts it is.
\<close>

definition toVarDeclaration' :: "(SyntaxNode option \<Rightarrow> error + Definition option) \<Rightarrow>
    EditorState \<Rightarrow> SyntaxNode \<Rightarrow> error + Definition option" where
  "toVarDeclaration' getDef st varDecl =
    (if isError (snd varDecl) then Inr None
     else case getChild ''DefName'' varDecl of
       None \<Rightarrow> Inr None
     | Some name \<Rightarrow>
        bindE (getDef (getChild ''Expr'' varDecl)) (\<lambda>def.
          if prevSibling (st_tree st) varDecl = None \<and> parent (st_tree st) varDecl = None
          then Inl TypeError
          else Inr (Some (case def of
              Some d \<Rightarrow> withName (text_of st name) d
            | None \<Rightarrow> Prim NoType (named (text_of st name))))))"

text \<open>
  \<open>getLocalScope\<close>. \<open>declarations\<close> are the nodes for which the \<open>enter\<close> callback calls
  toVarDeclaration, in the order of the iteration; \<open>addDeclaration\<close> is the body of the
  callback, which spreads the scope held so far over the new entry.
\<close>

definition declarations :: "EditorState \<Rightarrow> nat \<Rightarrow> SyntaxNode list" where
  "declarations st bound =
     filter (\<lambda>node. tname (snd node) = ''VarDecl'' \<and> tto (snd node) < bound)
       (iterate bound [] (st_tree st))"

definition addDeclaration :: "(SyntaxNode \<Rightarrow> error + Definition option) \<Rightarrow> SyntaxNode \<Rightarrow>
    (string \<rightharpoonup> Definition) \<Rightarrow> error + (string \<rightharpoonup> Definition)" where
  "addDeclaration toVarDecl node scope =
     bindE (toVarDecl node) (\<lambda>def.
       case def of
         None \<Rightarrow> Inr scope
       | Some d \<Rightarrow> Inr ([key_name d \<mapsto> d] ++ scope))"

definition getLocalScope' :: "(SyntaxNode \<Rightarrow> error + (string \<rightharpoonup> Definition)) \<Rightarrow>
    (SyntaxNode \<Rightarrow> error + Definition option) \<Rightarrow>
    EditorState \<Rightarrow> SyntaxNode \<Rightarrow> nat option \<Rightarrow> error + (string \<rightharpoonup> Definition)" where
  "getLocalScope' getPtrs toVarDecl st target pos =
    bindE (getPtrs target) (\<lambda>pointers.
      foldE (addDeclaration toVarDecl)
        (declarations st (case pos of Some p \<Rightarrow> p | None \<Rightarrow> tfrom (snd target)))
        pointers)"

text \<open>
  \<open>getPointers\<close>: \<open>cur\<close> runs over the node and its ancestors, \<open>prev\<close> is the node of the round
  before (the node itself in the first round).
\<close>

definition getPointers' :: "(SyntaxNode option \<Rightarrow> error + (string \<rightharpoonup> Definition)) \<Rightarrow>
    EditorState \<Rightarrow> SyntaxNode \<Rightarrow> error + (string \<rightharpoonup> Definition)" where
  "getPointers' getPredScope st node =
    bindE (firstE (\<lambda>cp.
             if tname (snd (fst cp)) = ''Arguments''
             then bindE (getPredScope (Some (snd cp))) (\<lambda>scope.
                    Inr (if scope ''#'' \<noteq> None then Some scope else None))
             else Inr None)
           (zip (upward (st_tree st) node) (node # upward (st_tree st) node)))
      (\<lambda>r. Inr (case r of Some scope \<Rightarrow> scope | None \<Rightarrow> Map.empty))"

text \<open>\<open>getPredicateScope\<close> on a node that is not null.\<close>

definition getPredicateScope' :: "(SyntaxNode option \<Rightarrow> error + Definition option) \<Rightarrow>
    EditorState \<Rightarrow> SyntaxNode \<Rightarrow> error + (string \<rightharpoonup> Definition)" where
  "getPredicateScope' getDef st nd =
    (if parent (st_tree st) nd = None then Inr Map.empty
     else if type_is '')'' nd then Inr Map.empty
     else case find (\<lambda>c. tname (snd c) = ''Arguments'') (upward (st_tree st) nd) of
       None \<Rightarrow> Inr Map.empty
     | Some a \<Rightarrow>
      (case find (\<lambda>c. tname (snd c) = ''CallExpr'') (upward (st_tree st) a) of
         None \<Rightarrow> Inr Map.empty
       | Some call \<Rightarrow>
        (case getChild ''Expr'' call of
           None \<Rightarrow> Inr Map.empty
         | Some varName \<Rightarrow>
            if \<not> isPredicativeFunc (text_of st varName) then Inr Map.empty
            else (case builtIn_variables (text_of st varName) of
               None \<Rightarrow> Inr Map.empty
             | Some def \<Rightarrow>
                if type_of def \<noteq> Kind_Func then Inr Map.empty
                else (case getChild ''Arguments'' call of
                   None \<Rightarrow> Inr Map.empty
                 | Some argsNode \<Rightarrow>
                    (let fed = (case pipeSource (st_tree st) True call of
                                  None \<Rightarrow> [] | Some a \<Rightarrow> [a]);
                         args = fed @ map Some (getChildren ''Expr'' argsNode);
                         cursor = (if type_is ''Arguments'' nd \<or> type_is '','' nd
                                   then st_head st else tfrom (snd nd));
                         pos = length fed +
                           length (filter (\<lambda>c. tto (snd c) \<le> cursor) (getChildren '','' argsNode))
                     in if pos \<ge> length (args_of def) \<or> type_of (args_of def ! pos) \<noteq> Kind_Func
                        then Inr Map.empty
                        else bindE (mapE (\<lambda>ia. if fst ia \<noteq> pos then getDef (snd ia)
                                                else Inr (Some anyDef))
                                     (enumerate 0 args)) (\<lambda>definitions.
                             bindE (resolveFuncGenerics def definitions (text_of st varName)) (\<lambda>func.
                               Inr (predicateScope (args_of (args_of func ! pos)))))))))))"

text \<open>
  The recursive functions, tied together by recursion on the depth bound: \<open>resolver n st\<close>
  holds the five functions at bound \<open>n\<close>, each of which runs its body on the functions at
  the bound below. \<open>getDefinition\<close> answers any for a null node and runs \<open>definition\<close>
  otherwise; the node cache in front of \<open>definition\<close> is left out: within one state it
  returns what \<open>definition\<close> computed for the same node. \<open>getPredicateScope\<close> answers the empty scope
  for a null node.
\<close>

record Resolver =
  r_getDefinition :: "SyntaxNode option \<Rightarrow> error + Definition option"
  r_toVarDeclaration :: "SyntaxNode \<Rightarrow> error + Definition option"
  r_getLocalScope :: "SyntaxNode \<Rightarrow> nat option \<Rightarrow> error + (string \<rightharpoonup> Definition)"
  r_getPointers :: "SyntaxNode \<Rightarrow> error + (string \<rightharpoonup> Definition)"
  r_getPredicateScope :: "SyntaxNode option \<Rightarrow> error + (string \<rightharpoonup> Definition)"

primrec resolver :: "nat \<Rightarrow> EditorState \<Rightarrow> Resolver" where
  "resolver 0 st = \<lparr>
     r_getDefinition =
       (\<lambda>node. case node of None \<Rightarrow> Inr (Some anyDef) | Some nd \<Rightarrow> Inl OutOfFuel),
     r_toVarDeclaration = (\<lambda>varDecl. Inl OutOfFuel),
     r_getLocalScope = (\<lambda>target pos. Inl OutOfFuel),
     r_getPointers = (\<lambda>node. Inl OutOfFuel),
     r_getPredicateScope =
       (\<lambda>node. case node of None \<Rightarrow> Inr Map.empty | Some nd \<Rightarrow> Inl OutOfFuel) \<rparr>"
| "resolver (Suc n) st = \<lparr>
     r_getDefinition = (\<lambda>node. case node of
         None \<Rightarrow> Inr (Some anyDef)
       | Some nd \<Rightarrow>
           definition' n (r_getDefinition (resolver n st)) (r_getLocalScope (resolver n st))
             (r_getPointers (resolver n st)) st nd),
     r_toVarDeclaration = toVarDeclaration' (r_getDefinition (resolver n st)) st,
     r_getLocalScope =
       getLocalScope' (r_getPointers (resolver n st)) (r_toVarDeclaration (resolver n st)) st,
     r_getPointers = getPointers' (r_getPredicateScope (resolver n st)) st,
     r_getPredicateScope = (\<lambda>node. case node of
         None \<Rightarrow> Inr Map.empty
       | Some nd \<Rightarrow> getPredicateScope' (r_getDefinition (resolver n st)) st nd) \<rparr>"

definition getDefinition :: "nat \<Rightarrow> EditorState \<Rightarrow> SyntaxNode option \<Rightarrow>
    error + Definition option" where
  "getDefinition n st = r_getDefinition (resolver n st)"

definition toVarDeclaration :: "nat \<Rightarrow> EditorState \<Rightarrow> SyntaxNode \<Rightarrow> error + Definition option" where
  "toVarDeclaration n st = r_toVarDeclaration (resolver n st)"

definition getLocalScope :: "nat \<Rightarrow> EditorState \<Rightarrow> SyntaxNode \<Rightarrow> nat option \<Rightarrow>
    error + (string \<rightharpoonup> Definition)" where
  "getLocalScope n st = r_getLocalScope (resolver n st)"

definition getPointers :: "nat \<Rightarrow> EditorState \<Rightarrow> SyntaxNode \<Rightarrow>
    error + (string \<rightharpoonup> Definition)" where
  "getPointers n st = r_getPointers (resolver n st)"

definition getPredicateScope :: "nat \<Rightarrow> EditorState \<Rightarrow> SyntaxNode option \<Rightarrow>
    error + (string \<rightharpoonup> Definition)" where
  "getPredicateScope n st = r_getPredicateScope (resolver n st)"

text \<open>
  The order on results in which a computation cut off by the depth bound is below every
  result; it states that a larger bound changes no result that was reached.
\<close>

definition le_res :: "error + 'a \<Rightarrow> error + 'a \<Rightarrow> bool" where
  "le_res r r' = (r = Inl OutOfFuel \<or> r = r')"

section \<open>Example documents\<close>

text \<open>
  Syntax trees of small documents, as inputs of the resolver. A leaf is a node without
  children that is no error node. The spans are the offsets in the document text.
\<close>

definition leaf :: "string \<Rightarrow> string list \<Rightarrow> nat \<Rightarrow> nat \<Rightarrow> Tree" where
  "leaf nm gs f t = Tree nm gs False f t []"

definition emptyScope :: Scope where
  "emptyScope = \<lparr> variables = Map.empty, types = Map.empty \<rparr>"

text \<open>\<open>x == nil ? 0 : x\<close> and \<open>x != nil ? x : 0\<close> with \<open>x: optional<int>\<close> in scope.\<close>

definition scopeX :: Scope where
  "scopeX = \<lparr> variables = [''x'' \<mapsto> Optional (Prim Kind_Int no_meta) no_meta], types = Map.empty \<rparr>"

definition condTree :: Tree where
  "condTree = Tree ''ConditionalExpr'' [''Expr''] False 0 16
     [Tree ''BinaryExpr'' [''Expr''] False 0 8
        [leaf ''VarName'' [''Expr''] 0 1, leaf ''CompareOp'' [''Op''] 2 4, leaf ''Nil'' [''Expr''] 5 8],
      leaf ''Integer'' [''Expr''] 11 12,
      leaf ''VarName'' [''Expr''] 15 16]"

definition condState :: EditorState where
  "condState = \<lparr> st_doc = ''x == nil ? 0 : x'', st_tree = condTree, st_head = 0, st_scope = scopeX \<rparr>"

definition condNeTree :: Tree where
  "condNeTree = Tree ''ConditionalExpr'' [''Expr''] False 0 16
     [Tree ''BinaryExpr'' [''Expr''] False 0 8
        [leaf ''VarName'' [''Expr''] 0 1, leaf ''CompareOp'' [''Op''] 2 4, leaf ''Nil'' [''Expr''] 5 8],
      leaf ''VarName'' [''Expr''] 11 12,
      leaf ''Integer'' [''Expr''] 15 16]"

definition condNeState :: EditorState where
  "condNeState = \<lparr> st_doc = ''x != nil ? x : 0'', st_tree = condNeTree, st_head = 0,
     st_scope = scopeX \<rparr>"

text \<open>
  \<open>a.b\<close> and \<open>a.b + 1\<close> with no variable in scope, and a generic signature \<open>f<T>(): T\<close>
  that declares no parameter.
\<close>

definition selTree :: Tree where
  "selTree = Tree ''SelectorExpr'' [''Expr''] False 0 3
     [leaf ''VarName'' [''Expr''] 0 1, leaf ''FieldName'' [] 2 3]"

definition selState :: EditorState where
  "selState = \<lparr> st_doc = ''a.b'', st_tree = selTree, st_head = 0, st_scope = emptyScope \<rparr>"

definition selSumTree :: Tree where
  "selSumTree = Tree ''BinaryExpr'' [''Expr''] False 0 7
     [selTree, leaf ''ArithmeticOp'' [''Op''] 4 5, leaf ''Integer'' [''Expr''] 6 7]"

definition selSumState :: EditorState where
  "selSumState = \<lparr> st_doc = ''a.b + 1'', st_tree = selSumTree, st_head = 0, st_scope = emptyScope \<rparr>"

definition noParams :: Definition where
  "noParams = Func (Some [(''T'', [anyDef])]) [] [Generic ''T'' no_meta] (named ''f'')"

text \<open>
  \<open>let x = 1; let x = true; x\<close>: two declarations of \<open>x\<close> before the variable reference,
  which is the target of the local scope.
\<close>

definition letTree :: Tree where
  "letTree = Tree ''Expr'' [] False 0 26
     [Tree ''VarDecl'' [] False 0 9 [leaf ''DefName'' [] 4 5, leaf ''Integer'' [''Expr''] 8 9],
      Tree ''VarDecl'' [] False 11 23 [leaf ''DefName'' [] 15 16, leaf ''Bool'' [''Expr''] 19 23],
      leaf ''VarName'' [''Expr''] 25 26]"

definition letState :: EditorState where
  "letState = \<lparr> st_doc = ''let x = 1; let x = true; x'', st_tree = letTree, st_head = 0,
     st_scope = emptyScope \<rparr>"

definition letTarget :: SyntaxNode where
  "letTarget = ([2], leaf ''VarName'' [''Expr''] 25 26)"

definition letDecl1 :: SyntaxNode where
  "letDecl1 = ([0], Tree ''VarDecl'' [] False 0 9
      [leaf ''DefName'' [] 4 5, leaf ''Integer'' [''Expr''] 8 9])"

definition letDecl2 :: SyntaxNode where
  "letDecl2 = ([1], Tree ''VarDecl'' [] False 11 23
      [leaf ''DefName'' [] 15 16, leaf ''Bool'' [''Expr''] 19 23])"

text \<open>\<open>a + b\<close> with \<open>a: uint\<close> and \<open>b: uint\<close> in scope.\<close>

definition scopeUint :: Scope where
  "scopeUint = \<lparr> variables = [''a'' \<mapsto> Prim Kind_Uint no_meta, ''b'' \<mapsto> Prim Kind_Uint no_meta],
     types = Map.empty \<rparr>"

definition uintTree :: Tree where
  "uintTree = Tree ''BinaryExpr'' [''Expr''] False 0 5
     [leaf ''VarName'' [''Expr''] 0 1, leaf ''ArithmeticOp'' [''Op''] 2 3,
      leaf ''VarName'' [''Expr''] 4 5]"

definition uintState :: EditorState where
  "uintState = \<lparr> st_doc = ''a + b'', st_tree = uintTree, st_head = 0, st_scope = scopeUint \<rparr>"

text \<open>
  \<open>arr | filter(# > 2)\<close> and \<open>filter(arr, # > 2)\<close> with \<open>arr: slice<int>\<close> and the built-in
  \<open>filter\<close> in scope; \<open>predTree f\<close> is the predicate \<open># > 2\<close> at offset \<open>f\<close>.
\<close>

definition scopeArr :: Scope where
  "scopeArr = \<lparr> variables = [''arr'' \<mapsto> Slice (Prim Kind_Int no_meta) no_meta,
       ''filter'' \<mapsto> builtIn_filter],
     types = Map.empty \<rparr>"

definition predTree :: "nat \<Rightarrow> Tree" where
  "predTree f = Tree ''BinaryExpr'' [''Expr''] False f (f + 5)
     [leaf ''Pointer'' [''Expr''] f (f + 1), leaf ''CompareOp'' [''Op''] (f + 2) (f + 3),
      leaf ''Integer'' [''Expr''] (f + 4) (f + 5)]"

definition pipeArgsTree :: Tree where
  "pipeArgsTree = Tree ''Arguments'' [] False 12 19
     [leaf ''('' [] 12 13, predTree 13, leaf '')'' [] 18 19]"

definition pipeCallTree :: Tree where
  "pipeCallTree = Tree ''CallExpr'' [''Expr''] False 6 19
     [leaf ''VarName'' [''Expr''] 6 12, pipeArgsTree]"

definition pipeTree :: Tree where
  "pipeTree = Tree ''PipeExpr'' [''Expr''] False 0 19
     [leaf ''VarName'' [''Expr''] 0 3, pipeCallTree]"

definition pipeState :: EditorState where
  "pipeState = \<lparr> st_doc = ''arr | filter(# > 2)'', st_tree = pipeTree, st_head = 0,
     st_scope = scopeArr \<rparr>"

definition callArgsTree :: Tree where
  "callArgsTree = Tree ''Arguments'' [] False 6 18
     [leaf ''('' [] 6 7, leaf ''VarName'' [''Expr''] 7 10, leaf '','' [] 10 11, predTree 12,
      leaf '')'' [] 17 18]"

definition callTree :: Tree where
  "callTree = Tree ''CallExpr'' [''Expr''] False 0 18
     [leaf ''VarName'' [''Expr''] 0 6, callArgsTree]"

definition callState :: EditorState where
  "callState = \<lparr> st_doc = ''filter(arr, # > 2)'', st_tree = callTree, st_head = 0,
     st_scope = scopeArr \<rparr>"

section \<open>Properties of type equality\<close>

text \<open>
  C8 (as stated). For non-null Definitions whose kinds differ the claim reads the nil rule
  symmetrically: isEquals is true exactly when both are numeric, or one of the two is an
  optional or a pointer and the other is nil. The code tests the first argument for
  optional or pointer and the second for nil only, so isEquals(nil, optional<int>) is false
  although one of the two is an optional and the other is nil.
\<close>

theorem C8_symmetric_nil_rule_fails:
  "type_of (Prim Kind_Nil no_meta) \<noteq> type_of (Optional (Prim Kind_Int no_meta) no_meta) \<and>
   \<not> (isEquals (Some (Prim Kind_Nil no_meta)) (Some (Optional (Prim Kind_Int no_meta) no_meta)) =
      ((isNumber (Prim Kind_Nil no_meta) \<and> isNumber (Optional (Prim Kind_Int no_meta) no_meta)) \<or>
       ((type_of (Prim Kind_Nil no_meta) = ExprKind_Optional \<or>
         type_of (Prim Kind_Nil no_meta) = Kind_Pointer) \<and>
        type_of (Optional (Prim Kind_Int no_meta) no_meta) = Kind_Nil) \<or>
       ((type_of (Optional (Prim Kind_Int no_meta) no_meta) = ExprKind_Optional \<or>
         type_of (Optional (Prim Kind_Int no_meta) no_meta) = Kind_Pointer) \<and>
        type_of (Prim Kind_Nil no_meta) = Kind_Nil)))"
  by simp

text \<open>
  C8 (amended). For non-null Definitions a and b whose kinds differ, isEquals(a, b) is true
  if and only if both are numeric (isNumber), or a is of kind optional or pointer and b is
  of kind nil, in this argument order.
\<close>

theorem C8_isEquals_kinds_differ:
  assumes "type_of a \<noteq> type_of b"
  shows "isEquals (Some a) (Some b) =
    ((isNumber a \<and> isNumber b) \<or>
     ((type_of a = ExprKind_Optional \<or> type_of a = Kind_Pointer) \<and> type_of b = Kind_Nil))"
  using assms by simp

text \<open>
  The four instances the specification lists: isEquals(int, float-tag),
  isEquals(optional<int>, nil), isEquals(pointer<int>, nil) hold and
  isEquals(slice<int>, nil) does not.
\<close>

theorem C8_isEquals_kinds_differ_witness:
  "isEquals (Some (Prim Kind_Int no_meta)) (Some (Prim ExprKind_Float no_meta)) \<and>
   isEquals (Some (Optional (Prim Kind_Int no_meta) no_meta)) (Some (Prim Kind_Nil no_meta)) \<and>
   isEquals (Some (Pointer (Prim Kind_Int no_meta) no_meta)) (Some (Prim Kind_Nil no_meta)) \<and>
   \<not> isEquals (Some (Slice (Prim Kind_Int no_meta) no_meta)) (Some (Prim Kind_Nil no_meta))"
  using C8_isEquals_kinds_differ [of "Prim Kind_Int no_meta" "Prim ExprKind_Float no_meta"]
    C8_isEquals_kinds_differ [of "Optional (Prim Kind_Int no_meta) no_meta" "Prim Kind_Nil no_meta"]
    C8_isEquals_kinds_differ [of "Pointer (Prim Kind_Int no_meta) no_meta" "Prim Kind_Nil no_meta"]
    C8_isEquals_kinds_differ [of "Slice (Prim Kind_Int no_meta) no_meta" "Prim Kind_Nil no_meta"]
  by simp

section \<open>Properties of the generic resolver\<close>

lemma merge_no_meta: "merge_meta no_meta m = m"
  by (cases m) (auto simp: merge_meta_def no_meta_def split: option.splits)

text \<open>
  C1. Calling the built-in \<open>map\<close> with a first argument of type slice<int> and a predicate
  argument of type bool (whatever name, variadic or embedded properties the argument
  Definitions carry): the substitution binds T to the int item and R to the bool, and the
  resolved signature has the single return slice<bool>, so the first return, the type of
  the call, is slice<bool>.
\<close>

theorem C1_map_resolves_to_slice_bool:
  "(case resolveGenerics [(''T'', [Prim Kind_Any no_meta]), (''R'', [Prim Kind_Any no_meta])]
      (args_of builtIn_map) [Some (Slice (Prim Kind_Int mi) ma), Some (Prim Kind_Bool mp)] ''map'' of
      Inl e \<Rightarrow> False
    | Inr S \<Rightarrow> S ''T'' = Some (Prim Kind_Int mi) \<and> S ''R'' = Some (Prim Kind_Bool mp)) \<and>
   resolveFuncGenerics builtIn_map
      [Some (Slice (Prim Kind_Int mi) ma), Some (Prim Kind_Bool mp)] ''map''
    = Inr (Func None
        [Slice (Prim Kind_Int mi) (named ''array''),
         Func None [Prim Kind_Int (named ''#index''), Prim Kind_Int (merge_meta (named ''#'') mi)]
           [Prim Kind_Bool mp] (named ''predicate'')]
        [Slice (Prim Kind_Bool mp) no_meta]
        (named ''map''))"
  by (simp add: builtIn_map_def resolveGenerics_def argExpected_def isPredicativeFunc_def
      checkGeneric_def merge_no_meta)

subsection \<open>The argument loop keeps the earliest binding\<close>

lemma argExpected_no_error: "fargs \<noteq> [] \<Longrightarrow> argExpected name fargs k \<noteq> Inl e"
  by (auto simp: argExpected_def Let_def)

lemma argExpected_some_nonempty: "argExpected name fargs k = Inr r \<Longrightarrow> fargs \<noteq> []"
  by (auto simp: argExpected_def Let_def split: if_splits)

lemma argExpected_reached_before:
  assumes "argExpected name fargs j = Inr (Some e)" and "k \<le> j"
  shows "\<exists>e'. argExpected name fargs k = Inr (Some e')"
  using assms by (auto simp: argExpected_def Let_def split: if_splits)

lemma bindArgs_returns: "fargs \<noteq> [] \<Longrightarrow> \<exists>G'. bindArgs name fargs k G args = Inr G'"
proof (induction args arbitrary: k G)
  case Nil
  then show ?case by simp
next
  case (Cons a rest)
  show ?case
  proof (cases "argExpected name fargs k")
    case (Inl e)
    with Cons.prems argExpected_no_error show ?thesis by blast
  next
    case (Inr r)
    then show ?thesis using Cons.IH [OF Cons.prems] by (cases r) auto
  qed
qed

lemma bindArgs_keeps:
  "bindArgs name fargs k G args = Inr G' \<Longrightarrow> G g = Some v \<Longrightarrow> G' g = Some v"
proof (induction args arbitrary: k G)
  case Nil
  then show ?case by simp
next
  case (Cons a rest)
  show ?case
  proof (cases "argExpected name fargs k")
    case (Inl e)
    with Cons.prems show ?thesis by simp
  next
    case (Inr r)
    show ?thesis
    proof (cases r)
      case None
      with Inr Cons.prems show ?thesis by simp
    next
      case (Some expected)
      with Inr Cons.prems have
        "bindArgs name fargs (Suc k) (collectGenerics (Some expected) a ++ G) rest = Inr G'"
        by simp
      moreover have "(collectGenerics (Some expected) a ++ G) g = Some v"
        using Cons.prems(2) by (simp add: map_add_def)
      ultimately show ?thesis by (rule Cons.IH)
    qed
  qed
qed

lemma bindArgs_first_binding:
  assumes "i < length args"
    and "argExpected name fargs (k + i) = Inr (Some ei)"
    and "collectGenerics (Some ei) (args ! i) g = Some b"
    and "\<forall>n<i. \<forall>e. argExpected name fargs (k + n) = Inr (Some e) \<longrightarrow>
           collectGenerics (Some e) (args ! n) g = None"
    and "G g = None"
  shows "\<exists>G'. bindArgs name fargs k G args = Inr G' \<and> G' g = Some b"
  using assms
proof (induction args arbitrary: k G i)
  case Nil
  then show ?case by simp
next
  case (Cons a rest)
  have ne: "fargs \<noteq> []" using Cons.prems(2) by (rule argExpected_some_nonempty)
  show ?case
  proof (cases i)
    case 0
    let ?G1 = "collectGenerics (Some ei) a ++ G"
    from 0 Cons.prems have ex: "argExpected name fargs k = Inr (Some ei)" by simp
    obtain G' where G': "bindArgs name fargs (Suc k) ?G1 rest = Inr G'"
      using bindArgs_returns [OF ne] by blast
    have "?G1 g = Some b" using 0 Cons.prems(3,5) by (simp add: map_add_def)
    with G' have "G' g = Some b" by (rule bindArgs_keeps)
    with ex G' show ?thesis by simp
  next
    case (Suc i')
    obtain e0 where e0: "argExpected name fargs k = Inr (Some e0)"
      using argExpected_reached_before [OF Cons.prems(2), of k] by auto
    let ?G1 = "collectGenerics (Some e0) a ++ G"
    have "collectGenerics (Some e0) a g = None"
      using Cons.prems(4) e0 Suc by (auto dest: spec [of _ 0])
    then have G1: "?G1 g = None" using Cons.prems(5) by (simp add: map_add_def)
    have "\<exists>G'. bindArgs name fargs (Suc k) ?G1 rest = Inr G' \<and> G' g = Some b"
    proof (rule Cons.IH [of i'])
      show "i' < length rest" using Cons.prems(1) Suc by simp
      show "argExpected name fargs (Suc k + i') = Inr (Some ei)" using Cons.prems(2) Suc by simp
      show "collectGenerics (Some ei) (rest ! i') g = Some b" using Cons.prems(3) Suc by simp
      show "\<forall>n<i'. \<forall>e. argExpected name fargs (Suc k + n) = Inr (Some e) \<longrightarrow>
           collectGenerics (Some e) (rest ! n) g = None"
      proof (intro allI impI)
        fix n e assume "n < i'" and "argExpected name fargs (Suc k + n) = Inr (Some e)"
        then show "collectGenerics (Some e) (rest ! n) g = None"
          using Cons.prems(4) Suc by (auto dest!: spec [of _ "Suc n"])
      qed
      show "?G1 g = None" by (rule G1)
    qed
    with e0 show ?thesis by simp
  qed
qed

lemma checkGeneric_other: "fst gc \<noteq> g \<Longrightarrow> checkGeneric gc G g = G g"
  by (simp add: checkGeneric_def Let_def)

lemma fold_checkGeneric_other: "g \<notin> fst ` set gs \<Longrightarrow> fold checkGeneric gs G g = G g"
  by (induction gs arbitrary: G) (auto simp: checkGeneric_other)

lemma checkGeneric_exact:
  assumes "G g = Some b"
  shows "checkGeneric (g, cs) G g =
    (if list_ex (\<lambda>t. isUnknownType (Some t) \<or> isEquals (Some b) (Some t)) cs then Some b
     else (case cs of [] \<Rightarrow> None | c # cs' \<Rightarrow> Some c))"
  using assms by (simp add: checkGeneric_def Let_def del: isEquals.simps)

lemma fold_checkGeneric_exact:
  assumes "distinct (map fst gs)" and "G g = Some b"
  shows "fold checkGeneric gs G g =
    (case map_of gs g of
       None \<Rightarrow> Some b
     | Some cs \<Rightarrow>
         if list_ex (\<lambda>t. isUnknownType (Some t) \<or> isEquals (Some b) (Some t)) cs then Some b
         else (case cs of [] \<Rightarrow> None | c # cs' \<Rightarrow> Some c))"
  using assms
proof (induction gs arbitrary: G)
  case Nil
  then show ?case by simp
next
  case (Cons gc gs)
  obtain g' cs where gc: "gc = (g', cs)" by (cases gc)
  show ?case
  proof (cases "g' = g")
    case False
    then have "checkGeneric gc G g = Some b" using Cons.prems(2) gc by (simp add: checkGeneric_other)
    moreover have "distinct (map fst gs)" using Cons.prems(1) by simp
    ultimately have "fold checkGeneric gs (checkGeneric gc G) g =
      (case map_of gs g of
         None \<Rightarrow> Some b
       | Some cs \<Rightarrow>
           if list_ex (\<lambda>t. isUnknownType (Some t) \<or> isEquals (Some b) (Some t)) cs then Some b
           else (case cs of [] \<Rightarrow> None | c # cs' \<Rightarrow> Some c))"
      by (rule Cons.IH [rotated])
    then show ?thesis using False gc by (simp del: isEquals.simps)
  next
    case True
    then have notin: "g \<notin> fst ` set gs" using Cons.prems(1) gc by auto
    have "fold checkGeneric (gc # gs) G g = checkGeneric gc G g"
      using fold_checkGeneric_other [OF notin] by simp
    also have "\<dots> = (if list_ex (\<lambda>t. isUnknownType (Some t) \<or> isEquals (Some b) (Some t)) cs
        then Some b else (case cs of [] \<Rightarrow> None | c # cs' \<Rightarrow> Some c))"
      using checkGeneric_exact [of G g b cs] Cons.prems(2) True gc by (simp del: isEquals.simps)
    finally show ?thesis using True gc by (simp del: isEquals.simps)
  qed
qed

text \<open>
  C3 (as stated). The earlier binding is not always the one in the final substitution: for
  \<open>f(a: T, b: T)\<close> with T constrained to number or string and the arguments (bool, string),
  position 0 binds T to bool and position 1 binds T to string; the loop keeps bool, the
  constraint pass finds bool equal to no constraint and replaces it by the first constraint,
  so the final substitution maps T to number.
\<close>

theorem C3_final_substitution_counterexample:
  "argExpected ''f'' (args_of twoT) 0 = Inr (Some (Generic ''T'' (named ''a''))) \<and>
   collectGenerics (Some (Generic ''T'' (named ''a''))) (Some (Prim Kind_Bool no_meta)) ''T''
     = Some (Prim Kind_Bool no_meta) \<and>
   argExpected ''f'' (args_of twoT) 1 = Inr (Some (Generic ''T'' (named ''b''))) \<and>
   collectGenerics (Some (Generic ''T'' (named ''b''))) (Some (Prim Kind_String no_meta)) ''T''
     = Some (Prim Kind_String no_meta) \<and>
   bound_to (resolveGenerics [(''T'', [Prim ExprKind_Number no_meta, Prim Kind_String no_meta])]
      (args_of twoT) [Some (Prim Kind_Bool no_meta), Some (Prim Kind_String no_meta)] ''f'') ''T''
     = Inr (Some (Prim ExprKind_Number no_meta)) \<and>
   Prim ExprKind_Number no_meta \<noteq> Prim Kind_Bool no_meta \<and>
   resolveFuncGenerics twoT [Some (Prim Kind_Bool no_meta), Some (Prim Kind_String no_meta)] ''f''
     = Inr (Func None [Prim ExprKind_Number (named ''a''), Prim ExprKind_Number (named ''b'')]
         [Prim ExprKind_Number no_meta] (named ''f''))"
  by (simp add: twoT_def argExpected_def isPredicativeFunc_def resolveGenerics_def
      checkGeneric_def no_meta_def named_def merge_meta_def bound_to_def)


text \<open>
  C3 (amended). When positions i < j of the argument loop both produce a binding for the
  generic variable g and i is the earliest position that does, the binding of position i is
  the one present when the loop ends (no later position overrides it) and no error is
  raised. In the final substitution g holds that binding if g has no declared constraint
  list, or if one of its declared constraints is of unknown type or equal to the binding;
  otherwise g holds the first declared constraint (and no binding when the list is empty).
\<close>

theorem C3_earliest_binding_wins:
  assumes "i < j" and "j < length args"
    and "argExpected name fargs i = Inr (Some ei)"
    and "collectGenerics (Some ei) (args ! i) g = Some bi"
    and "argExpected name fargs j = Inr (Some ej)"
    and "collectGenerics (Some ej) (args ! j) g = Some bj"
    and "\<forall>n<i. \<forall>e. argExpected name fargs n = Inr (Some e) \<longrightarrow>
           collectGenerics (Some e) (args ! n) g = None"
    and "distinct (map fst gs)"
  shows "\<exists>G S. bindArgs name fargs 0 Map.empty args = Inr G \<and> G g = Some bi \<and>
      resolveGenerics gs fargs args name = Inr S \<and>
      S g = (case map_of gs g of
               None \<Rightarrow> Some bi
             | Some cs \<Rightarrow>
                 if list_ex (\<lambda>t. isUnknownType (Some t) \<or> isEquals (Some bi) (Some t)) cs
                 then Some bi
                 else (case cs of [] \<Rightarrow> None | c # cs' \<Rightarrow> Some c)) \<and>
      resolveFuncGenerics (Func (Some gs) fargs rs mt) args name =
        Inr (patchGenerics S (Func (Some gs) fargs rs mt))"
proof -
  have "i < length args" using assms(1,2) by simp
  moreover have "argExpected name fargs (0 + i) = Inr (Some ei)" using assms(3) by simp
  moreover have "\<forall>n<i. \<forall>e. argExpected name fargs (0 + n) = Inr (Some e) \<longrightarrow>
           collectGenerics (Some e) (args ! n) g = None" using assms(7) by simp
  moreover have "(Map.empty :: string \<rightharpoonup> Definition) g = None" by simp
  ultimately obtain G where G: "bindArgs name fargs 0 Map.empty args = Inr G" "G g = Some bi"
    using bindArgs_first_binding [of i args name fargs 0 ei g bi Map.empty] assms(4) by blast
  let ?S = "fold checkGeneric gs G"
  have S: "resolveGenerics gs fargs args name = Inr ?S"
    using G(1) by (simp add: resolveGenerics_def)
  have "?S g = (case map_of gs g of
               None \<Rightarrow> Some bi
             | Some cs \<Rightarrow>
                 if list_ex (\<lambda>t. isUnknownType (Some t) \<or> isEquals (Some bi) (Some t)) cs
                 then Some bi
                 else (case cs of [] \<Rightarrow> None | c # cs' \<Rightarrow> Some c))"
    using assms(8) G(2) by (rule fold_checkGeneric_exact)
  moreover have "resolveFuncGenerics (Func (Some gs) fargs rs mt) args name =
        Inr (patchGenerics ?S (Func (Some gs) fargs rs mt))"
    using S by simp
  ultimately show ?thesis using G S by blast
qed

theorem C3_earliest_binding_wins_witness:
  "(\<exists>G S. bindArgs ''f'' (args_of twoT) 0 Map.empty
        [Some (Prim Kind_Bool no_meta), Some (Prim Kind_String no_meta)] = Inr G \<and>
      G ''T'' = Some (Prim Kind_Bool no_meta) \<and>
      resolveGenerics [(''T'', [Prim ExprKind_Number no_meta, Prim Kind_String no_meta])]
        (args_of twoT) [Some (Prim Kind_Bool no_meta), Some (Prim Kind_String no_meta)] ''f''
        = Inr S \<and>
      S ''T'' = Some (Prim ExprKind_Number no_meta)) \<and>
   (\<exists>G S. bindArgs ''f'' (args_of anyT) 0 Map.empty
        [Some (Prim Kind_Int no_meta), Some (Prim Kind_String no_meta)] = Inr G \<and>
      G ''T'' = Some (Prim Kind_Int no_meta) \<and>
      resolveGenerics [(''T'', [Prim Kind_Any no_meta])] (args_of anyT)
        [Some (Prim Kind_Int no_meta), Some (Prim Kind_String no_meta)] ''f'' = Inr S \<and>
      S ''T'' = Some (Prim Kind_Int no_meta))"
proof -
  have h1: "(0::nat) < 1" by simp
  have h7: "\<And>fargs args. \<forall>n<0::nat. \<forall>e. argExpected ''f'' fargs n = Inr (Some e) \<longrightarrow>
           collectGenerics (Some e) (args ! n) ''T'' = None" by simp
  let ?args = "[Some (Prim Kind_Bool no_meta), Some (Prim Kind_String no_meta)]"
  let ?fargs = "args_of twoT"
  let ?gs = "[(''T'', [Prim ExprKind_Number no_meta, Prim Kind_String no_meta])]"
  have a2: "1 < length ?args" by simp
  have a3: "argExpected ''f'' ?fargs 0 = Inr (Some (Generic ''T'' (named ''a'')))"
    by (simp add: twoT_def argExpected_def isPredicativeFunc_def)
  have a4: "collectGenerics (Some (Generic ''T'' (named ''a''))) (?args ! 0) ''T''
      = Some (Prim Kind_Bool no_meta)" by simp
  have a5: "argExpected ''f'' ?fargs 1 = Inr (Some (Generic ''T'' (named ''b'')))"
    by (simp add: twoT_def argExpected_def isPredicativeFunc_def)
  have a6: "collectGenerics (Some (Generic ''T'' (named ''b''))) (?args ! 1) ''T''
      = Some (Prim Kind_String no_meta)" by simp
  have a8: "distinct (map fst ?gs)" by simp
  have first: "\<exists>G S. bindArgs ''f'' ?fargs 0 Map.empty ?args = Inr G \<and>
      G ''T'' = Some (Prim Kind_Bool no_meta) \<and>
      resolveGenerics ?gs ?fargs ?args ''f'' = Inr S \<and>
      S ''T'' = Some (Prim ExprKind_Number no_meta)"
    using C3_earliest_binding_wins [OF h1 a2 a3 a4 a5 a6 h7 a8, of "[]" no_meta] by auto
  let ?args' = "[Some (Prim Kind_Int no_meta), Some (Prim Kind_String no_meta)]"
  let ?fargs' = "args_of anyT"
  let ?gs' = "[(''T'', [Prim Kind_Any no_meta])]"
  have b2: "1 < length ?args'" by simp
  have b3: "argExpected ''f'' ?fargs' 0 = Inr (Some (Generic ''T'' (named ''a'')))"
    by (simp add: anyT_def argExpected_def isPredicativeFunc_def)
  have b4: "collectGenerics (Some (Generic ''T'' (named ''a''))) (?args' ! 0) ''T''
      = Some (Prim Kind_Int no_meta)" by simp
  have b5: "argExpected ''f'' ?fargs' 1 = Inr (Some (Generic ''T'' (named ''b'')))"
    by (simp add: anyT_def argExpected_def isPredicativeFunc_def)
  have b6: "collectGenerics (Some (Generic ''T'' (named ''b''))) (?args' ! 1) ''T''
      = Some (Prim Kind_String no_meta)" by simp
  have b8: "distinct (map fst ?gs')" by simp
  have second: "\<exists>G S. bindArgs ''f'' ?fargs' 0 Map.empty ?args' = Inr G \<and>
      G ''T'' = Some (Prim Kind_Int no_meta) \<and>
      resolveGenerics ?gs' ?fargs' ?args' ''f'' = Inr S \<and>
      S ''T'' = Some (Prim Kind_Int no_meta)"
    using C3_earliest_binding_wins [OF h1 b2 b3 b4 b5 b6 h7 b8, of "[]" no_meta] by auto
  from first second show ?thesis by blast
qed

section \<open>Properties of the member resolver\<close>

text \<open>
  C6. The claim gives the direct field precedence over a promoted member of the same name
  in the table of getMembers, as getMember does. The code of getMembers spreads the fields
  of the struct first and the members of each embedded field after them, so the promoted
  member overwrites the direct field: for struct \<open>A { embeds B; X: string }\<close> and
  \<open>B { X: int }\<close> the table maps \<open>X\<close> to the int field of \<open>B\<close>, while getMember returns the
  string field of \<open>A\<close>.
\<close>

theorem C6_promoted_member_overwrites_direct:
  "(case getMembers 2 scopeAB structA of
      Inl e \<Rightarrow> False
    | Inr members \<Rightarrow> members ''X'' = Some (Prim Kind_Int (named ''X''))) \<and>
   getMember 1 scopeAB structA ''X'' = Inr (Some (Prim Kind_String (named ''X'')))"
  by (simp add: numeral_2_eq_2 scopeAB_def structA_def structB_def plain_def embedded_def
      resolveRef_def map_add_def)

subsection \<open>Termination\<close>

text \<open>
  C9 (as stated). On the registry whose entry \<open>A\<close> is the defined type \<open>A\<close>, the loop of
  getBaseType never ends.
\<close>

theorem C9_getBaseType_diverges: "getBaseType scopeCyclic selfA = None"
proof (cases "getBaseType scopeCyclic selfA")
  case None
  then show ?thesis .
next
  case (Some y)
  have "\<not> (s = scopeCyclic \<and> t = selfA)" if "getBaseType s t = Some y" for s t y
  proof (rule getBaseType.raw_induct [OF _ that])
    fix f s t y
    assume IH: "\<And>s t y. f s t = Some y \<Longrightarrow> \<not> (s = scopeCyclic \<and> t = selfA)"
      and body: "(case def_of t of
          Defined n m \<Rightarrow> (case types s n of None \<Rightarrow> Some t | Some td \<Rightarrow> f s td)
        | _ \<Rightarrow> Some t) = Some y"
    show "\<not> (s = scopeCyclic \<and> t = selfA)"
    proof
      assume "s = scopeCyclic \<and> t = selfA"
      with body have "f scopeCyclic selfA = Some y" by (simp add: selfA_def scopeCyclic_def)
      from IH [OF this] show False by simp
    qed
  qed
  with Some show ?thesis by blast
qed


text \<open>
  On the same registry getMembers and getMember exhaust every bound; they do so as well
  on a defined type that names no registry entry, which resolveRef hands back unchanged.
\<close>

lemma getMembers_cyclic: "getMembers n scopeCyclic selfA = Inl OutOfFuel"
  by (induction n) (simp_all add: selfA_def scopeCyclic_def resolveRef_def)

lemma getMember_cyclic: "getMember n scopeCyclic selfA name = Inl OutOfFuel"
  by (induction n) (simp_all add: selfA_def scopeCyclic_def resolveRef_def)

lemma getMember_unresolved:
  "types s tn = None \<Longrightarrow> getMember n s (plain (Defined tn m)) name = Inl OutOfFuel"
  by (induction n) (simp_all add: plain_def resolveRef_def)

lemma getMembers_unresolved:
  "types s tn = None \<Longrightarrow> getMembers n s (plain (Defined tn m)) = Inl OutOfFuel"
  by (induction n) (simp_all add: plain_def resolveRef_def)

lemma getMembers_fields_mono:
  assumes A: "\<And>t ms. getMembers n s t = Inr ms \<Longrightarrow> getMembers (Suc n) s t = Inr ms"
  shows "getMembersFields n s fs acc = Inr ms \<Longrightarrow> getMembersFields (Suc n) s fs acc = Inr ms"
proof (induction fs arbitrary: acc)
  case Nil
  then show ?case by simp
next
  case (Cons ff rest)
  show ?case
  proof (cases "type_of (snd ff) = Kind_Defined \<and> embedded (snd ff)")
    case False
    with Cons show ?thesis by (auto simp del: getMembers.simps)
  next
    case True
    show ?thesis
    proof (cases "getMembers n s (resolveRef s (plain (snd ff)))")
      case (Inl e)
      with True Cons.prems show ?thesis by simp
    next
      case (Inr ms')
      with True Cons.prems have "getMembersFields n s rest (acc ++ ms') = Inr ms" by simp
      then have "getMembersFields (Suc n) s rest (acc ++ ms') = Inr ms" by (rule Cons.IH)
      moreover have "getMembers (Suc n) s (resolveRef s (plain (snd ff))) = Inr ms'"
        using Inr by (rule A)
      ultimately show ?thesis using True by (simp del: getMembers.simps)
    qed
  qed
qed

lemma getMembers_mono: "getMembers n s t = Inr ms \<Longrightarrow> getMembers (Suc n) s t = Inr ms"
proof (induction n arbitrary: t ms)
  case 0
  then show ?case by simp
next
  case (Suc n)
  let ?M = "case methods_of t of Some ms \<Rightarrow> map_of ms | None \<Rightarrow> Map.empty"
  show ?case
  proof (cases "def_of t")
    case (Struct flds m)
    then have unf: "getMembers (Suc k) s t = getMembersFields k s flds (?M ++ map_of flds)" for k
      by (simp add: Let_def)
    from Suc.prems have "getMembersFields n s flds (?M ++ map_of flds) = Inr ms"
      by (simp only: unf)
    then have "getMembersFields (Suc n) s flds (?M ++ map_of flds) = Inr ms"
      using Suc.IH by (rule getMembers_fields_mono [rotated])
    then show ?thesis by (simp only: unf)
  next
    case (Defined tn m)
    then have unf: "getMembers (Suc k) s t = (case getMembers k s (resolveRef s t) of
           Inl e \<Rightarrow> Inl e | Inr ms \<Rightarrow> Inr (?M ++ ms))" for k
      by (simp add: Let_def)
    from Suc.prems obtain ms' where ms': "getMembers n s (resolveRef s t) = Inr ms'"
      and ms: "ms = ?M ++ ms'"
      by (auto simp only: unf split: sum.splits)
    from ms' have "getMembers (Suc n) s (resolveRef s t) = Inr ms'" by (rule Suc.IH)
    then show ?thesis using ms by (simp only: unf sum.case)
  next
    case (Prim k m)
    then have unf: "getMembers (Suc k) s t = Inr ?M" for k by (simp add: Let_def)
    from Suc.prems show ?thesis by (simp only: unf)
  qed (use Suc.prems in \<open>simp_all add: Let_def\<close>)
qed


lemma getMembers_mono_le:
  assumes "getMembers n s t = Inr ms" and "n \<le> k"
  shows "getMembers k s t = Inr ms"
  using assms(2,1) by (induction rule: dec_induct) (blast intro: getMembers_mono)+

lemma getMembersFields_mono_le:
  assumes "getMembersFields n s fs acc = Inr ms" and "n \<le> k"
  shows "getMembersFields k s fs acc = Inr ms"
  using assms(2,1)
  by (induction rule: dec_induct) (blast intro: getMembers_fields_mono getMembers_mono)+

lemma getMembersFields_returns:
  assumes "\<forall>ff \<in> set fs. type_of (snd ff) = Kind_Defined \<and> embedded (snd ff) \<longrightarrow>
      (\<exists>n ms. getMembers n s (resolveRef s (plain (snd ff))) = Inr ms)"
  shows "\<exists>N. \<forall>acc. \<exists>ms. getMembersFields N s fs acc = Inr ms"
  using assms
proof (induction fs)
  case Nil
  then show ?case by simp
next
  case (Cons ff rest)
  then obtain N where N: "\<And>acc. \<exists>ms. getMembersFields N s rest acc = Inr ms" by auto
  show ?case
  proof (cases "type_of (snd ff) = Kind_Defined \<and> embedded (snd ff)")
    case False
    with N have "\<forall>acc. \<exists>ms. getMembersFields N s (ff # rest) acc = Inr ms"
      by (auto simp del: getMembers.simps)
    then show ?thesis ..
  next
    case True
    with Cons.prems obtain n0 ms0 where
      n0: "getMembers n0 s (resolveRef s (plain (snd ff))) = Inr ms0" by auto
    let ?K = "max n0 N"
    have a: "getMembers ?K s (resolveRef s (plain (snd ff))) = Inr ms0"
      using n0 by (rule getMembers_mono_le) simp
    have "\<exists>ms. getMembersFields ?K s (ff # rest) acc = Inr ms" for acc
    proof -
      obtain ms where "getMembersFields N s rest (acc ++ ms0) = Inr ms" using N by blast
      then have "getMembersFields ?K s rest (acc ++ ms0) = Inr ms"
        by (rule getMembersFields_mono_le) simp
      with a True show ?thesis by (simp del: getMembers.simps)
    qed
    then show ?thesis by blast
  qed
qed

lemma getMember_fields_mono:
  assumes A: "\<And>t r. getMember n s t name = Inr r \<Longrightarrow> getMember (Suc n) s t name = Inr r"
  shows "getMemberFields n s fs name = Inr r \<Longrightarrow> getMemberFields (Suc n) s fs name = Inr r"
proof (induction fs)
  case Nil
  then show ?case by simp
next
  case (Cons ff rest)
  show ?case
  proof (cases "type_of (snd ff) = Kind_Defined \<and> embedded (snd ff)")
    case False
    with Cons show ?thesis by (auto simp del: getMember.simps)
  next
    case True
    show ?thesis
    proof (cases "getMember n s (resolveRef s (plain (snd ff))) name")
      case (Inl e)
      with True Cons.prems show ?thesis by simp
    next
      case (Inr r')
      then have up: "getMember (Suc n) s (resolveRef s (plain (snd ff))) name = Inr r'"
        by (rule A)
      show ?thesis
      proof (cases r')
        case None
        with Inr True Cons.prems have "getMemberFields n s rest name = Inr r" by simp
        then have "getMemberFields (Suc n) s rest name = Inr r" by (rule Cons.IH)
        with up None True show ?thesis by (simp del: getMember.simps)
      next
        case (Some member)
        with Inr True Cons.prems have "r = Some member" by simp
        with up Some True show ?thesis by (simp del: getMember.simps)
      qed
    qed
  qed
qed

lemma getMember_mono: "getMember n s t name = Inr r \<Longrightarrow> getMember (Suc n) s t name = Inr r"
proof (induction n arbitrary: t r)
  case 0
  then show ?case by simp
next
  case (Suc n)
  let ?direct = "case def_of t of Struct flds m \<Rightarrow> map_of flds name | _ \<Rightarrow> None"
  let ?meth = "case methods_of t of Some ms \<Rightarrow> map_of ms name | None \<Rightarrow> None"
  show ?case
  proof (cases "?direct = None \<and> ?meth = None")
    case False
    then have "getMember (Suc k) s t name = getMember (Suc k') s t name" for k k'
      by (auto split: option.splits)
    with Suc.prems show ?thesis by metis
  next
    case True
    then have unf: "getMember (Suc k) s t name = (case def_of t of
               Struct flds m \<Rightarrow> getMemberFields k s flds name
             | Defined tn m \<Rightarrow> getMember k s (resolveRef s t) name
             | _ \<Rightarrow> Inr None)" for k
      by simp
    show ?thesis
    proof (cases "def_of t")
      case (Struct flds m)
      with Suc.prems unf have "getMemberFields n s flds name = Inr r" by simp
      then have "getMemberFields (Suc n) s flds name = Inr r"
        using Suc.IH by (rule getMember_fields_mono [rotated])
      with Struct show ?thesis by (simp only: unf Definition.case)
    next
      case (Defined tn m)
      with Suc.prems unf have "getMember n s (resolveRef s t) name = Inr r" by simp
      then have "getMember (Suc n) s (resolveRef s t) name = Inr r" by (rule Suc.IH)
      with Defined show ?thesis by (simp only: unf Definition.case)
    qed (use Suc.prems unf in \<open>simp_all del: getMember.simps\<close>)
  qed
qed

lemma getMember_mono_le:
  assumes "getMember n s t name = Inr r" and "n \<le> k"
  shows "getMember k s t name = Inr r"
  using assms(2,1) by (induction rule: dec_induct) (blast intro: getMember_mono)+

lemma getMemberFields_mono_le:
  assumes "getMemberFields n s fs name = Inr r" and "n \<le> k"
  shows "getMemberFields k s fs name = Inr r"
  using assms(2,1)
  by (induction rule: dec_induct) (blast intro: getMember_fields_mono getMember_mono)+

lemma getMemberFields_returns:
  assumes "\<forall>ff \<in> set fs. type_of (snd ff) = Kind_Defined \<and> embedded (snd ff) \<longrightarrow>
      (\<exists>n r. getMember n s (resolveRef s (plain (snd ff))) name = Inr r)"
  shows "\<exists>N r. getMemberFields N s fs name = Inr r"
  using assms
proof (induction fs)
  case Nil
  then show ?case by simp
next
  case (Cons ff rest)
  then obtain N r where N: "getMemberFields N s rest name = Inr r" by auto
  show ?case
  proof (cases "type_of (snd ff) = Kind_Defined \<and> embedded (snd ff)")
    case False
    with N have "getMemberFields N s (ff # rest) name = Inr r"
      by (auto simp del: getMember.simps)
    then show ?thesis by blast
  next
    case True
    with Cons.prems obtain n0 r0 where
      n0: "getMember n0 s (resolveRef s (plain (snd ff))) name = Inr r0" by auto
    let ?K = "max n0 N"
    have a: "getMember ?K s (resolveRef s (plain (snd ff))) name = Inr r0"
      using n0 by (rule getMember_mono_le) simp
    have b: "getMemberFields ?K s rest name = Inr r"
      using N by (rule getMemberFields_mono_le) simp
    from a b True have "\<exists>r'. getMemberFields ?K s (ff # rest) name = Inr r'"
      by (cases r0) (simp_all del: getMember.simps)
    then show ?thesis by blast
  qed
qed


text \<open>
  C9 (amended). For every scope and every type from which the recursion of the member
  resolver is well founded (every embedded field of defined type and every defined type
  met on the way names a registry entry, and no chain of such references runs for ever),
  getBaseType, getMembers and getMember return.
\<close>

theorem C9_member_resolution_returns:
  assumes "resolves s t"
  shows "(\<exists>y. getBaseType s t = Some y) \<and> (\<exists>n ms. getMembers n s t = Inr ms) \<and>
    (\<exists>n r. getMember n s t name = Inr r)"
  using assms
proof (induction rule: resolves.induct)
  case (resolves_other t)
  have "getBaseType s t = Some t"
    using resolves_other by (subst getBaseType.simps) (cases "def_of t"; simp)
  moreover have "\<exists>ms. getMembers (Suc 0) s t = Inr ms"
    using resolves_other by (cases "def_of t"; simp add: Let_def)
  moreover have "\<exists>r. getMember (Suc 0) s t name = Inr r"
    using resolves_other by (cases "def_of t"; simp split: option.splits)
  ultimately show ?case by blast
next
  case (resolves_struct t flds m)
  have "getBaseType s t = Some t"
    using resolves_struct(1) by (subst getBaseType.simps) simp
  moreover have "\<exists>n ms. getMembers n s t = Inr ms"
  proof -
    from resolves_struct(2) obtain N where
      "\<And>acc. \<exists>ms. getMembersFields N s flds acc = Inr ms"
      using getMembersFields_returns [of flds s] by blast
    then have "\<exists>ms. getMembers (Suc N) s t = Inr ms"
      using resolves_struct(1) by (simp add: Let_def)
    then show ?thesis by blast
  qed
  moreover have "\<exists>n r. getMember n s t name = Inr r"
  proof -
    from resolves_struct(2) obtain N r where "getMemberFields N s flds name = Inr r"
      using getMemberFields_returns [of flds s name] by blast
    then have "\<exists>r. getMember (Suc N) s t name = Inr r"
      using resolves_struct(1) by (simp split: option.splits)
    then show ?thesis by blast
  qed
  ultimately show ?case by blast
next
  case (resolves_defined t tn m td)
  then obtain y n ms n' r where y: "getBaseType s td = Some y"
    and ms: "getMembers n s td = Inr ms" and r: "getMember n' s td name = Inr r" by blast
  have ref: "resolveRef s t = td" using resolves_defined(1,2) by (simp add: resolveRef_def)
  have "getBaseType s t = Some y"
    using resolves_defined(1,2) y by (subst getBaseType.simps) simp
  moreover have "\<exists>ms'. getMembers (Suc n) s t = Inr ms'"
    using resolves_defined(1) ref ms by (simp add: Let_def)
  moreover have "\<exists>r'. getMember (Suc n') s t name = Inr r'"
    using resolves_defined(1) ref r by (simp split: option.splits)
  ultimately show ?case by blast
qed

lemma resolves_structB: "resolves scopeAB structB"
  by (rule resolves_struct [where flds = "[(''X'', Prim Kind_Int (named ''X''))]" and m = "named ''B''"])
     (simp_all add: structB_def embedded_def named_def)

lemma resolves_structA: "resolves scopeAB structA"
proof (rule resolves_struct [where m = no_meta and
      flds = "[(''B'', Defined ''B'' (Meta (Some ''B'') None (Some True))),
               (''X'', Prim Kind_String (named ''X''))]"])
  show "def_of structA = Struct [(''B'', Defined ''B'' (Meta (Some ''B'') None (Some True))),
               (''X'', Prim Kind_String (named ''X''))] no_meta"
    by (simp add: structA_def plain_def)
  have "resolveRef scopeAB (plain (Defined ''B'' (Meta (Some ''B'') None (Some True)))) = structB"
    by (simp add: resolveRef_def plain_def scopeAB_def)
  then show "\<forall>ff\<in>set [(''B'', Defined ''B'' (Meta (Some ''B'') None (Some True))),
               (''X'', Prim Kind_String (named ''X''))].
       type_of (snd ff) = Kind_Defined \<and> embedded (snd ff) \<longrightarrow>
       resolves scopeAB (resolveRef scopeAB (plain (snd ff)))"
    using resolves_structB by simp
qed

theorem C9_member_resolution_returns_witness:
  "resolves scopeAB structA \<and>
   (\<exists>y. getBaseType scopeAB structA = Some y) \<and> (\<exists>n ms. getMembers n scopeAB structA = Inr ms) \<and>
   (\<exists>n r. getMember n scopeAB structA ''X'' = Inr r)"
  using resolves_structA C9_member_resolution_returns [OF resolves_structA, of "''X''"] by blast

section \<open>Properties of the expression resolver\<close>

subsection \<open>The recursive functions, one step unfolded\<close>

lemma getDefinition_None: "getDefinition n st None = Inr (Some anyDef)"
  by (cases n) (simp_all add: getDefinition_def)

lemma getDefinition_0: "getDefinition 0 st (Some nd) = Inl OutOfFuel"
  by (simp add: getDefinition_def)

lemma getDefinition_Suc: "getDefinition (Suc n) st (Some nd) =
    definition' n (getDefinition n st) (getLocalScope n st) (getPointers n st) st nd"
  by (simp add: getDefinition_def getLocalScope_def getPointers_def)

lemma toVarDeclaration_Suc: "toVarDeclaration (Suc n) st varDecl =
    toVarDeclaration' (getDefinition n st) st varDecl"
  by (simp add: getDefinition_def toVarDeclaration_def)

lemma getLocalScope_Suc: "getLocalScope (Suc n) st target pos =
    getLocalScope' (getPointers n st) (toVarDeclaration n st) st target pos"
  by (simp add: getLocalScope_def toVarDeclaration_def getPointers_def)

lemma getPointers_Suc: "getPointers (Suc n) st node =
    getPointers' (getPredicateScope n st) st node"
  by (simp add: getPointers_def getPredicateScope_def)

lemma getPredicateScope_None: "getPredicateScope n st None = Inr Map.empty"
  by (cases n) (simp_all add: getPredicateScope_def)

lemma getPredicateScope_Suc: "getPredicateScope (Suc n) st (Some nd) =
    getPredicateScope' (getDefinition n st) st nd"
  by (simp add: getPredicateScope_def getDefinition_def)

lemmas resolver_simps = getDefinition_None getDefinition_0 getDefinition_Suc toVarDeclaration_Suc
  getLocalScope_Suc getPointers_Suc getPredicateScope_None getPredicateScope_Suc

lemmas tree_simps = leaf_def children_def getChildren_def getChild_def type_is_def text_of_def
  sliceString_def nth_opt_def enumerate_eq_zip


lemmas scope_simps = getLocalScope'_def getPointers'_def declarations_def addDeclaration_def
  upward_def nodeAt_def parent_def prevSibling_def List.map_filter_def memberOf_def plain_def

lemma numeral_fuel: "numeral k = Suc (pred_numeral k)"
  by (simp add: numeral_eq_Suc)


subsection \<open>Results do not depend on the depth bound\<close>

text \<open>
  Each of the five functions, run with a larger bound, returns the same value or raises the
  same exception as with a smaller bound under which it was not cut off. So a result stated
  below for one bound is the result of the code.
\<close>

lemma le_res_refl: "le_res r r"
  by (simp add: le_res_def)

lemma bindE_mono:
  assumes "le_res r r'" and "\<And>v. le_res (f v) (f' v)"
  shows "le_res (bindE r f) (bindE r' f')"
  using assms by (auto simp: le_res_def bindE_def split: sum.splits)

lemma mapE_mono:
  assumes "\<And>x. le_res (f x) (f' x)"
  shows "le_res (mapE f xs) (mapE f' xs)"
proof (induction xs)
  case Nil
  then show ?case by (simp add: le_res_def)
next
  case (Cons x xs)
  show ?case
    unfolding mapE.simps
    by (intro bindE_mono assms Cons.IH le_res_refl)
qed

lemma foldE_mono:
  assumes "\<And>x acc. le_res (f x acc) (f' x acc)"
  shows "le_res (foldE f xs acc) (foldE f' xs acc)"
proof (induction xs arbitrary: acc)
  case Nil
  then show ?case by (simp add: le_res_def)
next
  case (Cons x xs)
  show ?case
    unfolding foldE.simps
    by (intro bindE_mono assms Cons.IH)
qed

lemma firstE_mono:
  assumes "\<And>x. le_res (f x) (f' x)"
  shows "le_res (firstE f xs) (firstE f' xs)"
proof (induction xs)
  case Nil
  then show ?case by (simp add: le_res_def)
next
  case (Cons x xs)
  have "le_res (case r of Some y \<Rightarrow> Inr (Some y) | None \<Rightarrow> firstE f xs)
          (case r of Some y \<Rightarrow> Inr (Some y) | None \<Rightarrow> firstE f' xs)" for r
    using Cons.IH by (cases r) (simp_all add: le_res_refl)
  then show ?case
    unfolding firstE.simps
    by (intro bindE_mono assms)
qed

lemma getMember_no_TypeError:
  "getMember n s t name \<noteq> Inl TypeError" "getMemberFields n s fs name \<noteq> Inl TypeError"
proof (induction n s t name and n s fs name rule: getMember_getMemberFields.induct)
  case (1 s src name)
  then show ?case by simp
next
  case (2 n s src name)
  then show ?case by (auto split: option.splits Definition.splits)
next
  case (3 n s name)
  then show ?case by simp
next
  case (4 n s ff rest name)
  then show ?case by (auto split: sum.splits option.splits error.splits)
qed

lemma getMember_le_res: "le_res (getMember n s t name) (getMember (Suc n) s t name)"
proof (cases "getMember n s t name")
  case (Inl e)
  then show ?thesis using getMember_no_TypeError(1) [of n s t name]
    by (cases e) (simp_all add: le_res_def)
next
  case (Inr r)
  then show ?thesis using getMember_mono [of n s t name r] by (simp add: le_res_def)
qed

lemma memberOf_mono: "le_res (memberOf n st source name) (memberOf (Suc n) st source name)"
  by (cases source) (simp_all add: memberOf_def le_res_refl getMember_le_res del: getMember.simps)

lemma le_res_if:
  assumes "c \<Longrightarrow> le_res a a'" and "\<not> c \<Longrightarrow> le_res b b'"
  shows "le_res (if c then a else b) (if c then a' else b')"
  using assms by simp

lemma le_res_option:
  assumes "x = None \<Longrightarrow> le_res a a'" and "\<And>v. x = Some v \<Longrightarrow> le_res (f v) (f' v)"
  shows "le_res (case x of None \<Rightarrow> a | Some v \<Rightarrow> f v) (case x of None \<Rightarrow> a' | Some v \<Rightarrow> f' v)"
  using assms by (cases x) simp_all

lemma definition'_mono:
  assumes gd: "\<And>x. le_res (gd x) (gd' x)"
    and gl: "\<And>x p. le_res (gl x p) (gl' x p)"
    and gp: "\<And>x. le_res (gp x) (gp' x)"
  shows "le_res (definition' n gd gl gp st nd) (definition' (Suc n) gd' gl' gp' st nd)"
  unfolding definition'_def Let_def
  by (intro le_res_refl le_res_if le_res_option bindE_mono mapE_mono gd gl gp memberOf_mono)

lemma toVarDeclaration'_mono:
  assumes gd: "\<And>x. le_res (gd x) (gd' x)"
  shows "le_res (toVarDeclaration' gd st varDecl) (toVarDeclaration' gd' st varDecl)"
  unfolding toVarDeclaration'_def
  by (intro le_res_refl le_res_if le_res_option bindE_mono gd)

lemma getLocalScope'_mono:
  assumes gp: "\<And>x. le_res (gp x) (gp' x)" and tv: "\<And>x. le_res (tv x) (tv' x)"
  shows "le_res (getLocalScope' gp tv st target pos) (getLocalScope' gp' tv' st target pos)"
  unfolding getLocalScope'_def addDeclaration_def
  by (intro le_res_refl bindE_mono foldE_mono gp tv)

lemma getPointers'_mono:
  assumes gs: "\<And>x. le_res (gs x) (gs' x)"
  shows "le_res (getPointers' gs st node) (getPointers' gs' st node)"
  unfolding getPointers'_def
  by (intro le_res_refl le_res_if bindE_mono firstE_mono gs)

lemma getPredicateScope'_mono:
  assumes gd: "\<And>x. le_res (gd x) (gd' x)"
  shows "le_res (getPredicateScope' gd st nd) (getPredicateScope' gd' st nd)"
  unfolding getPredicateScope'_def Let_def
  by (intro le_res_refl le_res_if le_res_option bindE_mono mapE_mono gd)

lemma resolver_mono:
  "(\<forall>x. le_res (getDefinition n st x) (getDefinition (Suc n) st x)) \<and>
   (\<forall>x. le_res (toVarDeclaration n st x) (toVarDeclaration (Suc n) st x)) \<and>
   (\<forall>x p. le_res (getLocalScope n st x p) (getLocalScope (Suc n) st x p)) \<and>
   (\<forall>x. le_res (getPointers n st x) (getPointers (Suc n) st x)) \<and>
   (\<forall>x. le_res (getPredicateScope n st x) (getPredicateScope (Suc n) st x))"
proof (induction n)
  case 0
  have "le_res (getDefinition 0 st x) (getDefinition (Suc 0) st x)" for x
    by (cases x) (simp_all add: getDefinition_None le_res_refl getDefinition_0 le_res_def)
  moreover have "le_res (getPredicateScope 0 st x) (getPredicateScope (Suc 0) st x)" for x
    by (cases x) (simp_all add: getPredicateScope_None le_res_refl getPredicateScope_def le_res_def)
  ultimately show ?case
    by (simp add: le_res_def toVarDeclaration_def getLocalScope_def getPointers_def)
next
  case (Suc n)
  then have gd: "\<And>x. le_res (getDefinition n st x) (getDefinition (Suc n) st x)"
    and tv: "\<And>x. le_res (toVarDeclaration n st x) (toVarDeclaration (Suc n) st x)"
    and gl: "\<And>x p. le_res (getLocalScope n st x p) (getLocalScope (Suc n) st x p)"
    and gp: "\<And>x. le_res (getPointers n st x) (getPointers (Suc n) st x)"
    and gs: "\<And>x. le_res (getPredicateScope n st x) (getPredicateScope (Suc n) st x)"
    by blast+
  have "le_res (getDefinition (Suc n) st x) (getDefinition (Suc (Suc n)) st x)" for x
  proof (cases x)
    case None
    then show ?thesis by (simp add: getDefinition_None le_res_refl)
  next
    case (Some nd)
    then show ?thesis
      unfolding Some getDefinition_Suc by (intro definition'_mono gd gl gp)
  qed
  moreover have "le_res (toVarDeclaration (Suc n) st x) (toVarDeclaration (Suc (Suc n)) st x)" for x
    unfolding toVarDeclaration_Suc by (intro toVarDeclaration'_mono gd)
  moreover have "le_res (getLocalScope (Suc n) st x p) (getLocalScope (Suc (Suc n)) st x p)" for x p
    unfolding getLocalScope_Suc by (intro getLocalScope'_mono gp tv)
  moreover have "le_res (getPointers (Suc n) st x) (getPointers (Suc (Suc n)) st x)" for x
    unfolding getPointers_Suc by (intro getPointers'_mono gs)
  moreover have "le_res (getPredicateScope (Suc n) st x) (getPredicateScope (Suc (Suc n)) st x)" for x
  proof (cases x)
    case None
    then show ?thesis by (simp add: getPredicateScope_None le_res_refl)
  next
    case (Some nd)
    then show ?thesis
      unfolding Some getPredicateScope_Suc by (intro getPredicateScope'_mono gd)
  qed
  ultimately show ?case by blast
qed

lemma getDefinition_stable:
  assumes "getDefinition n st x = r" and "r \<noteq> Inl OutOfFuel" and "n \<le> m"
  shows "getDefinition m st x = r"
  using assms(3,1,2)
proof (induction rule: dec_induct)
  case base
  then show ?case by simp
next
  case (step k)
  then have "getDefinition k st x = r" by simp
  moreover have "le_res (getDefinition k st x) (getDefinition (Suc k) st x)"
    using resolver_mono [of k st] by blast
  ultimately show ?case using step.prems(2) by (simp add: le_res_def)
qed

lemma getLocalScope_stable:
  assumes "getLocalScope n st x p = r" and "r \<noteq> Inl OutOfFuel" and "n \<le> m"
  shows "getLocalScope m st x p = r"
  using assms(3,1,2)
proof (induction rule: dec_induct)
  case base
  then show ?case by simp
next
  case (step k)
  then have "getLocalScope k st x p = r" by simp
  moreover have "le_res (getLocalScope k st x p) (getLocalScope (Suc k) st x p)"
    using resolver_mono [of k st] by blast
  ultimately show ?case using step.prems(2) by (simp add: le_res_def)
qed

subsection \<open>Null results and exceptions\<close>

text \<open>
  C2. The claim says that getDefinition returns a Definition for every node and never
  raises. On \<open>a.b\<close> with \<open>a\<close> unknown, the selector case returns the null of getMember as the
  type of the node; on \<open>a.b + 1\<close> the binary case passes that null to isNumber, which reads
  \<open>type\<close> of null and throws; and resolveFuncGenerics on a generic function that declares no
  parameter, called with one argument, reads \<open>variadic\<close> of \<open>f.args[-1]\<close> and throws.
\<close>

theorem C2_resolver_returns_null_and_raises:
  "getDefinition 5 selState (Some ([], selTree)) = Inr None \<and>
   getDefinition 6 selSumState (Some ([], selSumTree)) = Inl TypeError \<and>
   resolveFuncGenerics noParams [Some (Prim Kind_Int no_meta)] ''f'' = Inl TypeError"
proof -
  have "getDefinition 5 selState (Some ([], selTree)) = Inr None"
    by (simp add: numeral_fuel resolver_simps definition'_def selState_def selTree_def
        emptyScope_def tree_simps scope_simps bindE_def anyDef_def)
  moreover have "getDefinition 6 selSumState (Some ([], selSumTree)) = Inl TypeError"
    by (simp add: numeral_fuel resolver_simps definition'_def selSumState_def selSumTree_def
        selTree_def emptyScope_def tree_simps scope_simps bindE_def anyDef_def binaryType_def)
  moreover have "resolveFuncGenerics noParams [Some (Prim Kind_Int no_meta)] ''f'' = Inl TypeError"
    by (simp add: noParams_def resolveGenerics_def argExpected_def)
  ultimately show ?thesis by blast
qed

subsection \<open>Conditional expressions\<close>

text \<open>
  C4. With \<open>x: optional<int>\<close> in scope the claim gives \<open>x == nil ? 0 : x\<close> the type int. The
  conditional case tests the type of the true branch for optional before it looks at the
  operator, and unwraps the type of the true branch; for \<open>== nil\<close> the optional is the false
  branch, so the case breaks and the type is any. The mirrored \<open>x != nil ? x : 0\<close>, where
  the optional is the true branch, resolves to int.
\<close>

theorem C4_eq_nil_conditional_resolves_to_any:
  "getDefinition 3 condState (Some ([], condTree)) = Inr (Some (Prim Kind_Any no_meta)) \<and>
   getDefinition 3 condNeState (Some ([], condNeTree)) = Inr (Some (Prim Kind_Int no_meta))"
proof -
  have "getDefinition 3 condState (Some ([], condTree)) = Inr (Some (Prim Kind_Any no_meta))"
    by (simp add: numeral_fuel resolver_simps definition'_def condState_def condTree_def
        scopeX_def tree_simps bindE_def conditionalType_def withName_def no_meta_def anyDef_def)
  moreover have
    "getDefinition 3 condNeState (Some ([], condNeTree)) = Inr (Some (Prim Kind_Int no_meta))"
    by (simp add: numeral_fuel resolver_simps definition'_def condNeState_def condNeTree_def
        scopeX_def tree_simps bindE_def conditionalType_def withName_def no_meta_def)
  ultimately show ?thesis by blast
qed

subsection \<open>Local declarations\<close>

lemma addDeclaration_cases:
  assumes "tv d = Inr r"
  shows "addDeclaration tv d scope =
    Inr (case r of None \<Rightarrow> scope | Some v \<Rightarrow> [key_name v \<mapsto> v] ++ scope)"
  using assms by (cases r) (simp_all add: addDeclaration_def bindE_def)

lemma foldE_addDeclaration_returns:
  assumes "\<forall>k<length ds. \<exists>r. tv (ds ! k) = Inr r"
  shows "\<exists>S. foldE (addDeclaration tv) ds scope = Inr S"
  using assms
proof (induction ds arbitrary: scope)
  case Nil
  then show ?case by simp
next
  case (Cons d ds)
  from Cons.prems obtain r where r: "tv d = Inr r" by fastforce
  have "\<forall>k<length ds. \<exists>r. tv (ds ! k) = Inr r" using Cons.prems by fastforce
  from Cons.IH [OF this] show ?case
    by (simp add: addDeclaration_cases [of tv d r, OF r] bindE_def)
qed

lemma foldE_addDeclaration_keeps:
  assumes "foldE (addDeclaration tv) ds scope = Inr S" and "scope x = Some v"
  shows "S x = Some v"
  using assms
proof (induction ds arbitrary: scope)
  case Nil
  then show ?case by simp
next
  case (Cons d ds)
  show ?case
  proof (cases "tv d")
    case (Inl e)
    with Cons.prems show ?thesis by (simp add: addDeclaration_def bindE_def)
  next
    case (Inr r)
    let ?scope1 = "case r of None \<Rightarrow> scope | Some v \<Rightarrow> [key_name v \<mapsto> v] ++ scope"
    from Cons.prems(1) have "foldE (addDeclaration tv) ds ?scope1 = Inr S"
      by (simp add: addDeclaration_cases [of tv d r, OF Inr] bindE_def)
    moreover have "?scope1 x = Some v" using Cons.prems(2) by (cases r) (simp_all add: map_add_def)
    ultimately show ?thesis by (rule Cons.IH)
  qed
qed

lemma foldE_addDeclaration_first:
  assumes "i < length ds"
    and "tv (ds ! i) = Inr (Some d1)" and "key_name d1 = x"
    and "\<forall>k<i. \<forall>d. tv (ds ! k) = Inr (Some d) \<longrightarrow> key_name d \<noteq> x"
    and "\<forall>k<length ds. \<exists>r. tv (ds ! k) = Inr r"
    and "scope x = None"
  shows "\<exists>S. foldE (addDeclaration tv) ds scope = Inr S \<and> S x = Some d1"
  using assms
proof (induction ds arbitrary: i scope)
  case Nil
  then show ?case by simp
next
  case (Cons d ds)
  have rest: "\<forall>k<length ds. \<exists>r. tv (ds ! k) = Inr r" using Cons.prems(5) by fastforce
  show ?case
  proof (cases i)
    case 0
    with Cons.prems(2) have d: "tv d = Inr (Some d1)" by simp
    let ?scope1 = "[key_name d1 \<mapsto> d1] ++ scope"
    obtain S where S: "foldE (addDeclaration tv) ds ?scope1 = Inr S"
      using foldE_addDeclaration_returns [OF rest] by blast
    have "?scope1 x = Some d1" using Cons.prems(3,6) by (simp add: map_add_def)
    with S have "S x = Some d1" by (rule foldE_addDeclaration_keeps)
    with S show ?thesis by (simp add: addDeclaration_cases [of tv d "Some d1", OF d] bindE_def)
  next
    case (Suc i')
    from Cons.prems(5) obtain r where r: "tv d = Inr r" by fastforce
    let ?scope1 = "case r of None \<Rightarrow> scope | Some v \<Rightarrow> [key_name v \<mapsto> v] ++ scope"
    have "key_name v \<noteq> x" if "r = Some v" for v
      using Cons.prems(4) r that Suc by (auto dest!: spec [of _ 0])
    then have s1: "?scope1 x = None" using Cons.prems(6) by (cases r) (simp_all add: map_add_def)
    have "\<exists>S. foldE (addDeclaration tv) ds ?scope1 = Inr S \<and> S x = Some d1"
    proof (rule Cons.IH [of i'])
      show "i' < length ds" using Cons.prems(1) Suc by simp
      show "tv (ds ! i') = Inr (Some d1)" using Cons.prems(2) Suc by simp
      show "key_name d1 = x" by (rule Cons.prems(3))
      show "\<forall>k<i'. \<forall>d. tv (ds ! k) = Inr (Some d) \<longrightarrow> key_name d \<noteq> x"
      proof (intro allI impI)
        fix k d' assume "k < i'" and "tv (ds ! k) = Inr (Some d')"
        then show "key_name d' \<noteq> x" using Cons.prems(4) Suc by (auto dest!: spec [of _ "Suc k"])
      qed
      show "\<forall>k<length ds. \<exists>r. tv (ds ! k) = Inr r" by (rule rest)
      show "?scope1 x = None" by (rule s1)
    qed
    then show ?thesis by (simp add: addDeclaration_cases [of tv d r, OF r] bindE_def)
  qed
qed

lemma let_declarations: "declarations letState 25 = [letDecl1, letDecl2]"
  by (simp add: declarations_def letState_def letTree_def leaf_def letDecl1_def letDecl2_def)

lemma let_decl1: "toVarDeclaration 2 letState letDecl1 = Inr (Some (Prim Kind_Int (named ''x'')))"
  by (simp add: numeral_fuel resolver_simps toVarDeclaration'_def definition'_def letState_def
      letTree_def letDecl1_def tree_simps scope_simps bindE_def withName_def no_meta_def named_def)

lemma let_decl2: "toVarDeclaration 2 letState letDecl2 = Inr (Some (Prim Kind_Bool (named ''x'')))"
  by (simp add: numeral_fuel resolver_simps toVarDeclaration'_def definition'_def letState_def
      letTree_def letDecl2_def tree_simps scope_simps bindE_def withName_def no_meta_def named_def)

lemma let_pointers: "getPointers 2 letState letTarget = Inr Map.empty"
  by (simp add: numeral_fuel resolver_simps letState_def letTree_def letTarget_def tree_simps
      scope_simps bindE_def)


text \<open>
  C7 (as stated). In \<open>let x = 1; let x = true; x\<close> both declarations of \<open>x\<close> end before the
  variable reference and the second is the closer one; getLocalScope maps \<open>x\<close> to the first
  (int), not to the second (bool): the callback spreads the scope held so far over the new
  entry.
\<close>

theorem C7_later_declaration_does_not_shadow:
  "declarations letState (tfrom (snd letTarget)) = [letDecl1, letDecl2] \<and>
   tto (snd letDecl1) < tto (snd letDecl2) \<and> tto (snd letDecl2) < tfrom (snd letTarget) \<and>
   toVarDeclaration 2 letState letDecl1 = Inr (Some (Prim Kind_Int (named ''x''))) \<and>
   toVarDeclaration 2 letState letDecl2 = Inr (Some (Prim Kind_Bool (named ''x''))) \<and>
   bound_to (getLocalScope 3 letState letTarget None) ''x'' =
     Inr (Some (Prim Kind_Int (named ''x''))) \<and>
   Prim Kind_Int (named ''x'') \<noteq> Prim Kind_Bool (named ''x'')"
proof -
  have b: "tfrom (snd letTarget) = 25" by (simp add: letTarget_def leaf_def)
  have k1: "key_name (Prim Kind_Int (named ''x'')) = ''x''" by (simp add: key_name_def named_def)
  have k2: "key_name (Prim Kind_Bool (named ''x'')) = ''x''" by (simp add: key_name_def named_def)
  have "getLocalScope (Suc 2) letState letTarget None =
      Inr ([''x'' \<mapsto> Prim Kind_Bool (named ''x'')] ++
           ([''x'' \<mapsto> Prim Kind_Int (named ''x'')] ++ Map.empty))"
    by (simp only: getLocalScope_Suc getLocalScope'_def let_pointers bindE_def sum.case
        option.case b let_declarations foldE.simps addDeclaration_def let_decl1 let_decl2 k1 k2)
  moreover have "Suc 2 = (3::nat)" by simp
  ultimately have "getLocalScope 3 letState letTarget None =
      Inr ([''x'' \<mapsto> Prim Kind_Bool (named ''x'')] ++
           ([''x'' \<mapsto> Prim Kind_Int (named ''x'')] ++ Map.empty))" by simp
  moreover have "tto (snd letDecl1) < tto (snd letDecl2)" "tto (snd letDecl2) < tfrom (snd letTarget)"
    by (simp_all add: letTarget_def leaf_def letDecl1_def letDecl2_def)
  ultimately show ?thesis
    using let_declarations let_decl1 let_decl2 b
    by (simp add: map_add_def bound_to_def del: One_nat_def)
qed


text \<open>
  C7 (amended). For every position: when two well-formed declarations of a name both end
  before the position, no declaration raises and the implicit-parameter scope does not
  bind the name, getLocalScope maps the name to the earliest declaration of that name in
  document order; a later declaration does not shadow it.
\<close>

theorem C7_earlier_declaration_is_kept:
  assumes "decls = declarations st (case pos of Some p \<Rightarrow> p | None \<Rightarrow> tfrom (snd target))"
    and "i < j" and "j < length decls"
    and "toVarDeclaration n st (decls ! i) = Inr (Some d1)" and "key_name d1 = x"
    and "toVarDeclaration n st (decls ! j) = Inr (Some d2)" and "key_name d2 = x"
    and "\<forall>k<i. \<forall>d. toVarDeclaration n st (decls ! k) = Inr (Some d) \<longrightarrow> key_name d \<noteq> x"
    and "\<forall>k<length decls. \<exists>r. toVarDeclaration n st (decls ! k) = Inr r"
    and "getPointers n st target = Inr pointers" and "pointers x = None"
  shows "\<exists>scope. getLocalScope (Suc n) st target pos = Inr scope \<and> scope x = Some d1"
proof -
  have "i < length decls" using assms(2,3) by simp
  from foldE_addDeclaration_first [of i decls "toVarDeclaration n st" d1 x pointers,
      OF this assms(4,5,8,9,11)]
  obtain S where "foldE (addDeclaration (toVarDeclaration n st)) decls pointers = Inr S"
    and "S x = Some d1" by blast
  then show ?thesis
    using assms(1,10) by (simp add: getLocalScope_Suc getLocalScope'_def bindE_def)
qed

theorem C7_earlier_declaration_is_kept_witness:
  "\<exists>scope. getLocalScope 3 letState letTarget None = Inr scope \<and>
     scope ''x'' = Some (Prim Kind_Int (named ''x''))"
proof -
  have h1: "[letDecl1, letDecl2] =
      declarations letState (case None of Some p \<Rightarrow> p | None \<Rightarrow> tfrom (snd letTarget))"
    using let_declarations by (simp add: letTarget_def leaf_def)
  have h2: "(0::nat) < 1" by simp
  have h3: "1 < length [letDecl1, letDecl2]" by simp
  have h4: "toVarDeclaration 2 letState ([letDecl1, letDecl2] ! 0) =
      Inr (Some (Prim Kind_Int (named ''x'')))" using let_decl1 by simp
  have h5: "key_name (Prim Kind_Int (named ''x'')) = ''x''" by (simp add: key_name_def named_def)
  have h6: "toVarDeclaration 2 letState ([letDecl1, letDecl2] ! 1) =
      Inr (Some (Prim Kind_Bool (named ''x'')))" using let_decl2 by simp
  have h7: "key_name (Prim Kind_Bool (named ''x'')) = ''x''" by (simp add: key_name_def named_def)
  have h8: "\<forall>k<0::nat. \<forall>d. toVarDeclaration 2 letState ([letDecl1, letDecl2] ! k) = Inr (Some d)
      \<longrightarrow> key_name d \<noteq> ''x''" by simp
  have h9: "\<forall>k<length [letDecl1, letDecl2].
      \<exists>r. toVarDeclaration 2 letState ([letDecl1, letDecl2] ! k) = Inr r"
    using let_decl1 let_decl2 by (auto simp: less_Suc_eq)
  have h10: "getPointers 2 letState letTarget = Inr Map.empty" by (rule let_pointers)
  have h11: "(Map.empty :: string \<rightharpoonup> Definition) ''x'' = None" by simp
  have "Suc 2 = (3::nat)" by simp
  with C7_earlier_declaration_is_kept [OF h1 h2 h3 h4 h5 h6 h7 h8 h9 h10 h11]
  show ?thesis by simp
qed



subsection \<open>Unsigned operands\<close>

lemma isNumber_uint: "type_of t = Kind_Uint \<or> type_of t = Kind_Uintptr \<Longrightarrow> \<not> isNumber t"
  by auto

lemma isEquals_uint:
  assumes "type_of r = Kind_Uint" and "type_of l = Kind_Uint"
  shows "isEquals (Some r) (Some l)"
  using assms by (cases r; cases l) auto


text \<open>
  C10. isNumber is false on every Definition of kind uint or uintptr; a binary expression
  with an operator that is no comparison and no logic operator, whose two operands resolve
  to Definitions of kind uint, resolves to the Definition of its first operand, of kind
  uint, and not to the float tag.
\<close>

theorem C10_uint_operands_resolve_to_uint:
  assumes "tname (snd nd) = ''BinaryExpr''"
    and "getChild ''Op'' nd = Some op"
    and "tname (snd op) \<noteq> ''CompareOp''" and "tname (snd op) \<noteq> ''LogicOp''"
    and "getDefinition n st (nth_opt (getChildren ''Expr'' nd) 0) = Inr (Some r)"
    and "getDefinition n st (nth_opt (getChildren ''Expr'' nd) 1) = Inr (Some l)"
    and "type_of r = Kind_Uint" and "type_of l = Kind_Uint"
  shows "(\<forall>t. type_of t = Kind_Uint \<or> type_of t = Kind_Uintptr \<longrightarrow> \<not> isNumber t) \<and>
    getDefinition (Suc n) st (Some nd) = Inr (Some r) \<and>
    type_of r \<noteq> ExprKind_Float"
proof -
  have "binaryType (Some r) (Some l) = Inr (Some r)"
    using isNumber_uint [of r] isEquals_uint [OF assms(7,8)] assms(7)
    by (simp add: binaryType_def del: isEquals.simps isNumber.simps)
  then have "getDefinition (Suc n) st (Some nd) = Inr (Some r)"
    using assms(1-6) by (simp add: getDefinition_Suc definition'_def bindE_def)
  moreover have "\<forall>t. type_of t = Kind_Uint \<or> type_of t = Kind_Uintptr \<longrightarrow> \<not> isNumber t"
    using isNumber_uint by blast
  ultimately show ?thesis using assms(7) by simp
qed

theorem C10_uint_operands_resolve_to_uint_witness:
  "\<not> isNumber (Prim Kind_Uint no_meta) \<and> \<not> isNumber (Prim Kind_Uintptr no_meta) \<and>
   getDefinition (Suc (Suc 0)) uintState (Some ([], uintTree)) = Inr (Some (Prim Kind_Uint (named ''a'')))"
proof -
  let ?nd = "([], uintTree)"
  let ?op = "([1], leaf ''ArithmeticOp'' [''Op''] 2 3)"
  have h1: "tname (snd ?nd) = ''BinaryExpr''" by (simp add: uintTree_def)
  have h2: "getChild ''Op'' ?nd = Some ?op" by (simp add: uintTree_def tree_simps)
  have h3: "tname (snd ?op) \<noteq> ''CompareOp''" by (simp add: leaf_def)
  have h4: "tname (snd ?op) \<noteq> ''LogicOp''" by (simp add: leaf_def)
  have h5: "getDefinition (Suc 0) uintState (nth_opt (getChildren ''Expr'' ?nd) 0) =
      Inr (Some (Prim Kind_Uint (named ''a'')))"
    by (simp add: resolver_simps definition'_def uintState_def uintTree_def scopeUint_def tree_simps
        withName_def no_meta_def named_def)
  have h6: "getDefinition (Suc 0) uintState (nth_opt (getChildren ''Expr'' ?nd) 1) =
      Inr (Some (Prim Kind_Uint (named ''b'')))"
    by (simp add: resolver_simps definition'_def uintState_def uintTree_def scopeUint_def tree_simps
        withName_def no_meta_def named_def)
  have h7: "type_of (Prim Kind_Uint (named ''a'')) = Kind_Uint" by simp
  have h8: "type_of (Prim Kind_Uint (named ''b'')) = Kind_Uint" by simp
  from C10_uint_operands_resolve_to_uint [OF h1 h2 h3 h4 h5 h6 h7 h8]
  show ?thesis by simp
qed

subsection \<open>Pipes and calls\<close>

lemma filter_resolved:
  "resolveFuncGenerics builtIn_filter
     [Some (Slice (Prim Kind_Int mi) ma), Some (Prim Kind_Bool mb)] ''filter'' =
   Inr (Func None
     [Slice (Prim Kind_Int mi) (named ''array''),
      Func None [Prim Kind_Int (merge_meta (named ''#'') mi)] [Prim Kind_Bool no_meta]
        (named ''predicate'')]
     [Slice (Prim Kind_Int mi) no_meta] (named ''filter''))"
  by (simp add: builtIn_filter_def resolveGenerics_def argExpected_def isPredicativeFunc_def
      checkGeneric_def merge_no_meta)

lemma compare_is_bool:
  assumes "tname (snd pred) = ''BinaryExpr''" and "getChild ''Op'' pred = Some op"
    and "tname (snd op) = ''CompareOp''"
  shows "getDefinition (Suc n) st (Some pred) = Inr (Some (Prim Kind_Bool no_meta))"
  using assms by (simp add: getDefinition_Suc definition'_def)

lemma filter_callee:
  assumes "tname (snd callee) = ''VarName''" and "text_of st callee = ''filter''"
    and "variables (st_scope st) ''filter'' = Some builtIn_filter"
  shows "getDefinition (Suc n) st (Some callee) = Inr (Some builtIn_filter)"
  using assms
  by (simp add: getDefinition_Suc definition'_def withName_def builtIn_filter_def named_def)

lemma filter_call_type:
  assumes "tname (snd cn) = ''CallExpr''"
    and "getChild ''Expr'' cn = Some callee"
    and "tname (snd callee) = ''VarName''" and "text_of st callee = ''filter''"
    and "variables (st_scope st) ''filter'' = Some builtIn_filter"
    and "getChild ''Arguments'' cn = Some argsNode"
    and "(case pipeSource (st_tree st) False cn of None \<Rightarrow> [] | Some a \<Rightarrow> [a]) @
         map Some (getChildren ''Expr'' argsNode) = [Some arr, Some pred]"
    and "tname (snd pred) = ''BinaryExpr''" and "getChild ''Op'' pred = Some op"
    and "tname (snd op) = ''CompareOp''"
    and "getDefinition (Suc n) st (Some arr) = Inr (Some (Slice (Prim Kind_Int mi) ma))"
  shows "getDefinition (Suc (Suc n)) st (Some cn) = Inr (Some (Slice (Prim Kind_Int mi) no_meta))"
proof -
  have callee: "getDefinition (Suc n) st (Some callee) = Inr (Some builtIn_filter)"
    using assms(3,4,5) by (rule filter_callee)
  have pred: "getDefinition (Suc n) st (Some pred) = Inr (Some (Prim Kind_Bool no_meta))"
    using assms(8,9,10) by (rule compare_is_bool)
  have args: "mapE (getDefinition (Suc n) st) [Some arr, Some pred] =
      Inr [Some (Slice (Prim Kind_Int mi) ma), Some (Prim Kind_Bool no_meta)]"
    using pred assms(11) by (simp add: bindE_def)
  have func: "type_of builtIn_filter = Kind_Func" by (simp add: builtIn_filter_def)
  show ?thesis
    unfolding getDefinition_Suc [of "Suc n"] definition'_def
    using assms(1,2,4,6,7) callee args func
    by (simp add: bindE_def filter_resolved del: mapE.simps)
qed


text \<open>
  C5. Let \<open>arr | filter(# > 2)\<close> be a pipe expression and \<open>filter(arr, # > 2)\<close> a direct call
  (in the same or in two states) in which \<open>filter\<close> is the built-in and \<open>arr\<close> resolves to a
  Definition of type slice<int>. The call case prepends the pipe source as argument 0, the
  predicate is a comparison and resolves to bool, the pipe expression takes the type of its
  last expression child, and both expressions resolve to the same type, slice<int>.
\<close>

theorem C5_pipe_equals_direct_call:
  assumes "tname (snd pn) = ''PipeExpr''"
    and "getChildren ''Expr'' pn = [arr1, call1]"
    and "parent (st_tree st1) call1 = Some pn"
    and "prevSibling (st_tree st1) call1 \<noteq> None"
    and "tname (snd call1) = ''CallExpr''"
    and "getChild ''Expr'' call1 = Some callee1"
    and "tname (snd callee1) = ''VarName''" and "text_of st1 callee1 = ''filter''"
    and "variables (st_scope st1) ''filter'' = Some builtIn_filter"
    and "getChild ''Arguments'' call1 = Some args1"
    and "getChildren ''Expr'' args1 = [pred1]"
    and "tname (snd pred1) = ''BinaryExpr''" and "getChild ''Op'' pred1 = Some op1"
    and "tname (snd op1) = ''CompareOp''"
    and "getDefinition (Suc n) st1 (Some arr1) = Inr (Some (Slice (Prim Kind_Int mi) ma1))"
    and "tname (snd call2) = ''CallExpr''"
    and "pipeSource (st_tree st2) False call2 = None"
    and "getChild ''Expr'' call2 = Some callee2"
    and "tname (snd callee2) = ''VarName''" and "text_of st2 callee2 = ''filter''"
    and "variables (st_scope st2) ''filter'' = Some builtIn_filter"
    and "getChild ''Arguments'' call2 = Some args2"
    and "getChildren ''Expr'' args2 = [arr2, pred2]"
    and "tname (snd pred2) = ''BinaryExpr''" and "getChild ''Op'' pred2 = Some op2"
    and "tname (snd op2) = ''CompareOp''"
    and "getDefinition (Suc n) st2 (Some arr2) = Inr (Some (Slice (Prim Kind_Int mi) ma2))"
  shows "getDefinition (Suc (Suc (Suc n))) st1 (Some pn) =
      getDefinition (Suc (Suc n)) st2 (Some call2) \<and>
    getDefinition (Suc (Suc n)) st2 (Some call2) = Inr (Some (Slice (Prim Kind_Int mi) no_meta))"
proof -
  have src: "pipeSource (st_tree st1) False call1 = Some (Some arr1)"
    using assms(1,2,3,4) by (simp add: pipeSource_def type_is_def getChild_def)
  have "getDefinition (Suc (Suc n)) st1 (Some call1) = Inr (Some (Slice (Prim Kind_Int mi) no_meta))"
    using assms(5,6,7,8,9,10) _ assms(12,13,14,15)
  proof (rule filter_call_type)
    show "(case pipeSource (st_tree st1) False call1 of None \<Rightarrow> [] | Some a \<Rightarrow> [a]) @
         map Some (getChildren ''Expr'' args1) = [Some arr1, Some pred1]"
      using src assms(11) by simp
  qed
  then have pipe: "getDefinition (Suc (Suc (Suc n))) st1 (Some pn) =
      Inr (Some (Slice (Prim Kind_Int mi) no_meta))"
    using assms(1,2) by (simp add: getDefinition_Suc [of "Suc (Suc n)"] definition'_def)
  have direct: "getDefinition (Suc (Suc n)) st2 (Some call2) =
      Inr (Some (Slice (Prim Kind_Int mi) no_meta))"
    using assms(16,18,19,20,21,22) _ assms(24,25,26,27)
  proof (rule filter_call_type)
    show "(case pipeSource (st_tree st2) False call2 of None \<Rightarrow> [] | Some a \<Rightarrow> [a]) @
         map Some (getChildren ''Expr'' args2) = [Some arr2, Some pred2]"
      using assms(17,23) by simp
  qed
  from pipe direct show ?thesis by simp
qed


lemma arr_in_pipe: "getDefinition (Suc 0) pipeState (Some ([0], leaf ''VarName'' [''Expr''] 0 3)) =
    Inr (Some (Slice (Prim Kind_Int no_meta) (named ''arr'')))"
  by (simp add: resolver_simps definition'_def pipeState_def scopeArr_def tree_simps
      withName_def no_meta_def named_def)

lemma arr_in_call: "getDefinition (Suc 0) callState (Some ([1, 1], leaf ''VarName'' [''Expr''] 7 10)) =
    Inr (Some (Slice (Prim Kind_Int no_meta) (named ''arr'')))"
  by (simp add: resolver_simps definition'_def callState_def scopeArr_def tree_simps
      withName_def no_meta_def named_def)

theorem C5_pipe_equals_direct_call_witness:
  "getDefinition (Suc (Suc (Suc 0))) pipeState (Some ([], pipeTree)) =
     getDefinition (Suc (Suc 0)) callState (Some ([], callTree)) \<and>
   getDefinition (Suc (Suc 0)) callState (Some ([], callTree)) =
     Inr (Some (Slice (Prim Kind_Int no_meta) no_meta))"
proof -
  let ?pn = "([], pipeTree)"
  let ?arr1 = "([0], leaf ''VarName'' [''Expr''] 0 3)"
  let ?call1 = "([1], pipeCallTree)"
  let ?callee1 = "([1, 0], leaf ''VarName'' [''Expr''] 6 12)"
  let ?args1 = "([1, 1], pipeArgsTree)"
  let ?pred1 = "([1, 1, 1], predTree 13)"
  let ?op1 = "([1, 1, 1, 1], leaf ''CompareOp'' [''Op''] 15 16)"
  let ?call2 = "([], callTree)"
  let ?callee2 = "([0], leaf ''VarName'' [''Expr''] 0 6)"
  let ?args2 = "([1], callArgsTree)"
  let ?arr2 = "([1, 1], leaf ''VarName'' [''Expr''] 7 10)"
  let ?pred2 = "([1, 3], predTree 12)"
  let ?op2 = "([1, 3, 1], leaf ''CompareOp'' [''Op''] 14 15)"
  have p1: "tname (snd ?pn) = ''PipeExpr''" by (simp add: pipeTree_def)
  have p2: "getChildren ''Expr'' ?pn = [?arr1, ?call1]"
    by (simp add: pipeTree_def pipeCallTree_def tree_simps)
  have p3: "parent (st_tree pipeState) ?call1 = Some ?pn"
    by (simp add: parent_def nodeAt_def pipeState_def)
  have p4: "prevSibling (st_tree pipeState) ?call1 \<noteq> None"
    by (simp add: prevSibling_def nodeAt_def pipeState_def pipeTree_def)
  have p5: "tname (snd ?call1) = ''CallExpr''" by (simp add: pipeCallTree_def)
  have p6: "getChild ''Expr'' ?call1 = Some ?callee1"
    by (simp add: pipeCallTree_def pipeArgsTree_def tree_simps)
  have p7: "tname (snd ?callee1) = ''VarName''" by (simp add: leaf_def)
  have p8: "text_of pipeState ?callee1 = ''filter''" by (simp add: pipeState_def tree_simps)
  have p9: "variables (st_scope pipeState) ''filter'' = Some builtIn_filter"
    by (simp add: pipeState_def scopeArr_def)
  have p10: "getChild ''Arguments'' ?call1 = Some ?args1"
    by (simp add: pipeCallTree_def pipeArgsTree_def tree_simps)
  have p11: "getChildren ''Expr'' ?args1 = [?pred1]"
    by (simp add: pipeArgsTree_def predTree_def tree_simps)
  have p12: "tname (snd ?pred1) = ''BinaryExpr''" by (simp add: predTree_def)
  have p13: "getChild ''Op'' ?pred1 = Some ?op1" by (simp add: predTree_def tree_simps)
  have p14: "tname (snd ?op1) = ''CompareOp''" by (simp add: leaf_def)
  have d1: "tname (snd ?call2) = ''CallExpr''" by (simp add: callTree_def)
  have d2: "pipeSource (st_tree callState) False ?call2 = None"
    by (simp add: pipeSource_def parent_def)
  have d3: "getChild ''Expr'' ?call2 = Some ?callee2"
    by (simp add: callTree_def callArgsTree_def tree_simps)
  have d4: "tname (snd ?callee2) = ''VarName''" by (simp add: leaf_def)
  have d5: "text_of callState ?callee2 = ''filter''" by (simp add: callState_def tree_simps)
  have d6: "variables (st_scope callState) ''filter'' = Some builtIn_filter"
    by (simp add: callState_def scopeArr_def)
  have d7: "getChild ''Arguments'' ?call2 = Some ?args2"
    by (simp add: callTree_def callArgsTree_def tree_simps)
  have d8: "getChildren ''Expr'' ?args2 = [?arr2, ?pred2]"
    by (simp add: callArgsTree_def predTree_def tree_simps)
  have d9: "tname (snd ?pred2) = ''BinaryExpr''" by (simp add: predTree_def)
  have d10: "getChild ''Op'' ?pred2 = Some ?op2" by (simp add: predTree_def tree_simps)
  have d11: "tname (snd ?op2) = ''CompareOp''" by (simp add: leaf_def)
  show ?thesis
    by (rule C5_pipe_equals_direct_call [OF p1 p2 p3 p4 p5 p6 p7 p8 p9 p10 p11 p12 p13 p14
          arr_in_pipe d1 d2 d3 d4 d5 d6 d7 d8 d9 d10 d11 arr_in_call])
qed


text \<open>
  In the direct call the implicit parameter \<open>#\<close> resolves through getPointers and
  getPredicateScope to the item type of \<open>arr\<close>.
\<close>

lemma pointer_in_call:
  "getDefinition 6 callState (Some ([1, 3, 0], leaf ''Pointer'' [''Expr''] 12 13)) =
    Inr (Some (Prim Kind_Int (named ''#'')))"
  by (simp add: numeral_fuel resolver_simps definition'_def getPredicateScope'_def callState_def
      callTree_def callArgsTree_def predTree_def scopeArr_def tree_simps scope_simps bindE_def
      pipeSource_def builtIn_variables_def elementPredicate_def builtIn_filter_def arrayT_def
      anyDef_def isPredicativeFunc_def resolveGenerics_def argExpected_def checkGeneric_def
      predicateScope_def key_name_def merge_meta_def withName_def named_def no_meta_def)

end
